(* ===== verification/QPD_Prelude.thy ===== *)
theory QPD_Prelude
  imports Complex_Main
begin

text \<open>
  Shared vocabulary of the development: the gate kinds and the error values that the
  parser and the propagation engine of \<^verbatim>\<open>src/s-QPDs.py\<close> exchange, the result type
  (an exception of the source is the \<open>Inl\<close> of a sum), the range predicate
  \<open>-1 <= x <= 1\<close> that the source re-checks after every gate, and the semantics of the
  Python list operations the source uses (\<open>xs[i]\<close>, \<open>xs[i] = v\<close>, \<open>xs[a:b]\<close>),
  with the \<open>IndexError\<close> they raise written out, and statements over a mutable
  list as functions from the store to the store and an outcome. The lemma collections
  declared here carry the component proofs: \<open>qpd_defs\<close> unfolds the non-recursive
  definitions, \<open>range_intros\<close> collects the facts that a value stays in \<open>[-1, 1]\<close>.
\<close>

section \<open>Lemma collections\<close>

named_theorems qpd_defs "unfolding equations of the non-recursive definitions of the model"
named_theorems range_intros "facts that establish membership in the interval [-1, 1]"

section \<open>Gate kinds and errors\<close>

text \<open>
  The five one-letter tags \<open>'S'\<close>, \<open>'R'\<close>, \<open>'C'\<close>, \<open>'L'\<close>, \<open>'B'\<close> of the source,
  in the priority order in which \<open>parse_input\<close> tries their patterns.
\<close>

datatype kind = KS | KR | KC | KL | KB

text \<open>
  Every \<open>raise\<close> of the source as a value, and the exceptions that Python itself
  raises in it: \<open>IndexError\<close> for a list index out of range, \<open>NameError\<close> for a
  variable that was never bound, \<open>EOFError\<close> for \<open>input\<close> at the end of the input. The formatted message of a \<open>ValueError\<close> is kept as
  its fields: \<open>SpacesNotAllowed i snippet\<close>, \<open>InvalidToken pos snippet\<close>,
  \<open>InvalidReal s\<close>, \<open>InvalidNat s\<close>, \<open>NatTooSmall v\<close>, and
  \<open>OutOfRange k mode index s_in\<close> with the tag printed in the message, the mode it
  names, the gate number and the vector at the moment of failure.
\<close>

datatype error =
    SpacesNotAllowed nat string
  | InvalidToken nat string
  | InvalidReal string
  | InvalidNat string
  | NatTooSmall int
  | OutOfRange kind int nat "real list"
  | IndexError
  | NameError
  | EOFError

type_synonym 'a result = "error + 'a"
type_synonym svec = "real list"

text \<open>The errors that are Python \<open>ValueError\<close>s; the script only catches those.\<close>

fun is_ValueError :: "error \<Rightarrow> bool" where
  "is_ValueError IndexError = False"
| "is_ValueError NameError = False"
| "is_ValueError EOFError = False"
| "is_ValueError _ = True"

definition is_ok :: "'a result \<Rightarrow> bool" where
  "is_ok m = (case m of Inl _ \<Rightarrow> False | Inr _ \<Rightarrow> True)"

text \<open>Sequencing of fallible steps: the first error aborts, as a raised exception does.\<close>

definition rbind :: "'a result \<Rightarrow> ('a \<Rightarrow> 'b result) \<Rightarrow> 'b result" where
  "rbind m f = (case m of Inl e \<Rightarrow> Inl e | Inr v \<Rightarrow> f v)"

section \<open>The range check\<close>

definition in_range :: "real \<Rightarrow> bool" where
  "in_range x \<longleftrightarrow> - 1 \<le> x \<and> x \<le> 1"

abbreviation all_in_range :: "svec \<Rightarrow> bool" where
  "all_in_range v \<equiv> list_all in_range v"

section \<open>Python list operations\<close>

text \<open>
  \<open>norm_index n i\<close> is the position that Python's \<open>xs[i]\<close> addresses in a list of
  length \<open>n\<close>: a negative index counts from the end, and an index outside
  \<open>[-n, n)\<close> has no position.
\<close>

definition norm_index :: "nat \<Rightarrow> int \<Rightarrow> nat option" where
  "norm_index n i =
     (let j = (if i < 0 then int n + i else i)
      in if 0 \<le> j \<and> j < int n then Some (nat j) else None)"

definition getitem :: "'a list \<Rightarrow> int \<Rightarrow> 'a result" where
  "getitem xs i = (case norm_index (length xs) i of None \<Rightarrow> Inl IndexError | Some j \<Rightarrow> Inr (xs ! j))"

definition setitem :: "'a list \<Rightarrow> int \<Rightarrow> 'a \<Rightarrow> 'a list result" where
  "setitem xs i v =
     (case norm_index (length xs) i of None \<Rightarrow> Inl IndexError | Some j \<Rightarrow> Inr (xs[j := v]))"

text \<open>\<open>slice xs a b\<close> is \<open>xs[a:b]\<close> for non-negative bounds; it never raises.\<close>

definition slice :: "'a list \<Rightarrow> nat \<Rightarrow> nat \<Rightarrow> 'a list" where
  "slice xs a b = take (b - a) (drop a xs)"

section \<open>Programs over a mutable store\<close>

text \<open>
  The propagation loop mutates the caller's list in place, and what it has written
  stays written when it raises. A statement is therefore a function from the store
  before it to the store after it together with its outcome, an exception or a value.
  \<open>sread\<close> and \<open>swrite\<close> are \<open>xs[i]\<close> as an expression and as an assignment target;
  \<open>sraise\<close> builds the exception from the store at the moment it is raised, as the
  messages of the source print the vector.
\<close>

type_synonym ('s, 'a) prog = "'s \<Rightarrow> 's \<times> 'a result"

definition sreturn :: "'a \<Rightarrow> ('s, 'a) prog" where
  "sreturn v = (\<lambda>s. (s, Inr v))"

definition sraise :: "('s \<Rightarrow> error) \<Rightarrow> ('s, 'a) prog" where
  "sraise mk = (\<lambda>s. (s, Inl (mk s)))"

definition sbind :: "('s, 'a) prog \<Rightarrow> ('a \<Rightarrow> ('s, 'b) prog) \<Rightarrow> ('s, 'b) prog" where
  "sbind m f = (\<lambda>s. case m s of (s', Inl e) \<Rightarrow> (s', Inl e) | (s', Inr v) \<Rightarrow> f v s')"

definition sread :: "int \<Rightarrow> ('a list, 'a) prog" where
  "sread i = (\<lambda>s. (s, getitem s i))"

definition swrite :: "int \<Rightarrow> 'a \<Rightarrow> ('a list, unit) prog" where
  "swrite i v = (\<lambda>s. case setitem s i v of Inl e \<Rightarrow> (s, Inl e) | Inr s' \<Rightarrow> (s', Inr ()))"

section \<open>Lemmas on results\<close>

lemma rbind_Inl [simp]: "rbind (Inl e) f = Inl e"
  by (simp add: rbind_def)

lemma rbind_Inr [simp]: "rbind (Inr v) f = f v"
  by (simp add: rbind_def)

lemma rbind_eq_Inr_iff: "rbind m f = Inr w \<longleftrightarrow> (\<exists>v. m = Inr v \<and> f v = Inr w)"
  by (cases m) simp_all

lemma rbind_eq_Inl_iff:
  "rbind m f = Inl e \<longleftrightarrow> m = Inl e \<or> (\<exists>v. m = Inr v \<and> f v = Inl e)"
  by (cases m) simp_all

lemma rbind_assoc: "rbind (rbind m f) g = rbind m (\<lambda>v. rbind (f v) g)"
  by (cases m) simp_all

lemma rbind_cong [fundef_cong]:
  "m = m' \<Longrightarrow> (\<And>v. m' = Inr v \<Longrightarrow> f v = f' v) \<Longrightarrow> rbind m f = rbind m' f'"
  by (cases m') simp_all

lemma is_ok_simps [simp]: "is_ok (Inr v)" "\<not> is_ok (Inl e)"
  by (simp_all add: is_ok_def)

lemma is_ok_iff: "is_ok m \<longleftrightarrow> (\<exists>v. m = Inr v)"
  by (cases m) simp_all

section \<open>Lemmas on the range check\<close>

lemma in_rangeI [range_intros]: "- 1 \<le> x \<Longrightarrow> x \<le> 1 \<Longrightarrow> in_range x"
  by (simp add: in_range_def)

lemma in_rangeD: "in_range x \<Longrightarrow> - 1 \<le> x \<and> x \<le> 1"
  by (simp add: in_range_def)

lemma in_range_abs: "in_range x \<longleftrightarrow> \<bar>x\<bar> \<le> 1"
  by (auto simp: in_range_def)

lemma in_range_numerals [simp, range_intros]:
  "in_range 0" "in_range 1" "in_range (- 1)" "\<not> in_range (- 100)"
  by (simp_all add: in_range_def)

lemma in_range_min [range_intros]: "in_range a \<Longrightarrow> in_range b \<Longrightarrow> in_range (min a b)"
  by (simp add: in_range_def min_def)

lemma in_range_between: "in_range a \<Longrightarrow> in_range b \<Longrightarrow> a \<le> x \<Longrightarrow> x \<le> b \<Longrightarrow> in_range x"
  by (simp add: in_range_def)

lemma all_in_range_nth: "all_in_range v \<Longrightarrow> j < length v \<Longrightarrow> in_range (v ! j)"
  by (simp add: list_all_length)

lemma all_in_range_update:
  "all_in_range v \<Longrightarrow> in_range x \<Longrightarrow> all_in_range (v[j := x])"
  using set_update_subset_insert [of v j x] by (auto simp: list_all_iff)

section \<open>Lemmas on list indexing\<close>

lemma norm_index_Some_iff:
  "norm_index n i = Some j \<longleftrightarrow>
     (0 \<le> i \<and> i < int n \<and> j = nat i) \<or> (i < 0 \<and> - int n \<le> i \<and> j = nat (int n + i))"
  by (auto simp: norm_index_def Let_def)

lemma norm_index_None_iff: "norm_index n i = None \<longleftrightarrow> int n \<le> i \<or> i < - int n"
  by (auto simp: norm_index_def Let_def)

lemma norm_index_less: "norm_index n i = Some j \<Longrightarrow> j < n"
  by (auto simp: norm_index_Some_iff)

lemma norm_index_nonneg [simp]:
  "0 \<le> i \<Longrightarrow> norm_index n i = (if i < int n then Some (nat i) else None)"
  by (simp add: norm_index_def)

lemma norm_index_of_nat [simp]: "norm_index n (int k) = (if k < n then Some k else None)"
  by (simp add: norm_index_def)

lemma getitem_Inr_iff:
  "getitem xs i = Inr x \<longleftrightarrow> (\<exists>j. norm_index (length xs) i = Some j \<and> x = xs ! j)"
  by (auto simp: getitem_def split: option.splits)

lemma getitem_Inl_iff:
  "getitem xs i = Inl e \<longleftrightarrow> e = IndexError \<and> norm_index (length xs) i = None"
  by (auto simp: getitem_def split: option.splits)

lemma setitem_Inr_iff:
  "setitem xs i v = Inr ys \<longleftrightarrow> (\<exists>j. norm_index (length xs) i = Some j \<and> ys = xs[j := v])"
  by (auto simp: setitem_def split: option.splits)

lemma setitem_Inl_iff:
  "setitem xs i v = Inl e \<longleftrightarrow> e = IndexError \<and> norm_index (length xs) i = None"
  by (auto simp: setitem_def split: option.splits)

lemma setitem_after_getitem:
  "getitem xs i = Inr x \<Longrightarrow> \<exists>j. norm_index (length xs) i = Some j \<and> setitem xs i v = Inr (xs[j := v])"
  by (auto simp: getitem_def setitem_def split: option.splits)

lemma length_setitem: "setitem xs i v = Inr ys \<Longrightarrow> length ys = length xs"
  by (auto simp: setitem_Inr_iff)

lemma getitem_setitem_same: "setitem xs i v = Inr ys \<Longrightarrow> getitem ys i = Inr v"
  by (auto simp: setitem_Inr_iff getitem_def norm_index_less)

lemma length_slice [simp]: "length (slice xs a b) = min (b - a) (length xs - a)"
  by (simp add: slice_def)

lemma slice_all [simp]: "slice xs 0 (length xs) = xs"
  by (simp add: slice_def)

section \<open>Lemmas on programs\<close>

lemma sbind_sreturn [simp]: "sbind (sreturn v) f = f v"
  by (simp add: sbind_def sreturn_def)

lemma sbind_sraise [simp]: "sbind (sraise mk) f = sraise mk"
  by (simp add: sbind_def sraise_def)

lemma sbind_assoc: "sbind (sbind m f) g = sbind m (\<lambda>v. sbind (f v) g)"
  by (auto simp: sbind_def fun_eq_iff split: prod.splits sum.splits)

lemma sbind_apply_Inr: "m s = (s', Inr v) \<Longrightarrow> sbind m f s = f v s'"
  by (simp add: sbind_def)

lemma sbind_apply_Inl: "m s = (s', Inl e) \<Longrightarrow> sbind m f s = (s', Inl e)"
  by (simp add: sbind_def)

lemma sbind_eq_Inr_iff:
  "sbind m f s = (t, Inr w) \<longleftrightarrow> (\<exists>s' v. m s = (s', Inr v) \<and> f v s' = (t, Inr w))"
  by (auto simp: sbind_def split: prod.splits sum.splits)

lemma sbind_eq_Inl_iff:
  "sbind m f s = (t, Inl e) \<longleftrightarrow>
     m s = (t, Inl e) \<or> (\<exists>s' v. m s = (s', Inr v) \<and> f v s' = (t, Inl e))"
  by (auto simp: sbind_def split: prod.splits sum.splits)

lemma sreturn_apply [simp]: "sreturn v s = (s, Inr v)"
  by (simp add: sreturn_def)

lemma sraise_apply [simp]: "sraise mk s = (s, Inl (mk s))"
  by (simp add: sraise_def)

lemma sread_apply:
  "sread i s = (s, case norm_index (length s) i of None \<Rightarrow> Inl IndexError | Some j \<Rightarrow> Inr (s ! j))"
  by (simp add: sread_def getitem_def)

lemma swrite_apply:
  "swrite i v s =
     (case norm_index (length s) i of None \<Rightarrow> (s, Inl IndexError) | Some j \<Rightarrow> (s[j := v], Inr ()))"
  by (simp add: swrite_def setitem_def split: option.splits)

lemma sread_Some [simp]: "norm_index (length s) i = Some j \<Longrightarrow> sread i s = (s, Inr (s ! j))"
  by (simp add: sread_apply)

lemma sread_None [simp]: "norm_index (length s) i = None \<Longrightarrow> sread i s = (s, Inl IndexError)"
  by (simp add: sread_apply)

lemma swrite_Some [simp]:
  "norm_index (length s) i = Some j \<Longrightarrow> swrite i v s = (s[j := v], Inr ())"
  by (simp add: swrite_apply)

lemma swrite_None [simp]:
  "norm_index (length s) i = None \<Longrightarrow> swrite i v s = (s, Inl IndexError)"
  by (simp add: swrite_apply)

section \<open>The tags as an enumeration\<close>

text \<open>
  The five tags in the order of the source. As an instance of \<open>enum\<close> the type is
  finite, quantifiers over tags are finite conjunctions, and functions on tags, such as
  the dictionary \<open>data\<close>, can be compared by evaluation.
\<close>

lemma UNIV_kind: "UNIV = {KS, KR, KC, KL, KB}"
  by (auto intro: kind.exhaust)

instantiation kind :: enum
begin

definition enum_kind :: "kind list" where
  "enum_kind = [KS, KR, KC, KL, KB]"

definition enum_all_kind :: "(kind \<Rightarrow> bool) \<Rightarrow> bool" where
  "enum_all_kind P \<longleftrightarrow> P KS \<and> P KR \<and> P KC \<and> P KL \<and> P KB"

definition enum_ex_kind :: "(kind \<Rightarrow> bool) \<Rightarrow> bool" where
  "enum_ex_kind P \<longleftrightarrow> P KS \<or> P KR \<or> P KC \<or> P KL \<or> P KB"

instance
  by standard (auto simp: enum_kind_def enum_all_kind_def enum_ex_kind_def UNIV_kind)

end

lemma kind_fun_eq_iff: "f = g \<longleftrightarrow> list_all (\<lambda>k :: kind. f k = g k) [KS, KR, KC, KL, KB]"
  by (auto simp: fun_eq_iff intro: kind.exhaust) (metis kind.exhaust)

end
