(* ===== verification/QPD_Gates.thy ===== *)
theory QPD_Gates
  imports QPD_Prelude
begin

text \<open>
  The four transfer functions of \<^verbatim>\<open>src/s-QPDs.py\<close> (lines 74--95): each maps the
  ordering parameter of a mode before a gate, and the gate's own parameter, to the
  ordering parameter after it. Python floats are modelled as real numbers, \<open>np.exp\<close>
  and \<open>np.abs\<close> as \<open>exp\<close> and \<open>\<bar>_\<bar>\<close>; the conversion \<open>float(...)\<close> around the
  results is the identity, and the integers that \<open>s_cubic\<close> returns are reals. The lemmas give, for every function, its closed form on each
  branch, the exact set of inputs for which the result passes the range check of the
  propagation loop, and the algebraic laws (monotonicity, composition, fixed points)
  that the loop's invariants rest on.
\<close>

section \<open>Definitions\<close>

definition s_losses :: "real \<Rightarrow> real \<Rightarrow> real" where
  "s_losses s_in eta = 1 - eta * (1 - s_in)"

definition s_squeezing :: "real \<Rightarrow> real \<Rightarrow> real" where
  "s_squeezing s_in r =
     (if s_in \<ge> 0 then s_in / exp (2 * \<bar>r\<bar>) else s_in / exp (- 2 * \<bar>r\<bar>))"

definition s_beamsplitter :: "real \<Rightarrow> real \<Rightarrow> real \<Rightarrow> real" where
  "s_beamsplitter s_in1 s_in2 theta = min s_in1 s_in2"

definition s_cubic :: "real \<Rightarrow> real \<Rightarrow> real" where
  "s_cubic s_in gamma = (if s_in = 1 then - 1 else - 100)"

lemmas gate_defs [qpd_defs] = s_losses_def s_squeezing_def s_beamsplitter_def s_cubic_def

section \<open>Losses\<close>

lemma s_losses_in_range_iff:
  "in_range (s_losses s eta) \<longleftrightarrow> 0 \<le> eta * (1 - s) \<and> eta * (1 - s) \<le> 2"
  by (auto simp: s_losses_def in_range_def)

lemma s_losses_fixed_point [simp]: "s_losses 1 eta = 1"
  by (simp add: s_losses_def)

lemma s_losses_eta_0 [simp]: "s_losses s 0 = 1"
  by (simp add: s_losses_def)

lemma s_losses_eta_1 [simp]: "s_losses s 1 = s"
  by (simp add: s_losses_def)

lemma s_losses_compose: "s_losses (s_losses s a) b = s_losses s (a * b)"
  by (simp add: s_losses_def algebra_simps)

lemma s_losses_ge:
  assumes "0 \<le> eta" "eta \<le> 1" "s \<le> 1"
  shows "s \<le> s_losses s eta" and "s_losses s eta \<le> 1"
proof -
  have "eta * (1 - s) \<le> 1 * (1 - s)"
    using assms by (intro mult_right_mono) simp_all
  then show "s \<le> s_losses s eta" by (simp add: s_losses_def)
  have "0 \<le> eta * (1 - s)" using assms by simp
  then show "s_losses s eta \<le> 1" by (simp add: s_losses_def)
qed

lemma s_losses_in_range [range_intros]:
  "0 \<le> eta \<Longrightarrow> eta \<le> 1 \<Longrightarrow> in_range s \<Longrightarrow> in_range (s_losses s eta)"
  using s_losses_ge [of eta s] by (auto simp: in_range_def)

lemma s_losses_negative_eta:
  assumes "eta < 0" "s < 1"
  shows "1 < s_losses s eta"
proof -
  have "eta * (1 - s) < 0" using assms by (simp add: mult_neg_pos)
  then show ?thesis by (simp add: s_losses_def)
qed

lemma s_losses_mono: "0 \<le> eta \<Longrightarrow> s \<le> t \<Longrightarrow> s_losses s eta \<le> s_losses t eta"
  by (simp add: s_losses_def mult_left_mono)

section \<open>Squeezing\<close>

lemma s_squeezing_nonneg: "0 \<le> s \<Longrightarrow> s_squeezing s r = s * exp (- (2 * \<bar>r\<bar>))"
  by (simp add: s_squeezing_def exp_minus divide_inverse)

lemma s_squeezing_neg: "s < 0 \<Longrightarrow> s_squeezing s r = s * exp (2 * \<bar>r\<bar>)"
  by (simp add: s_squeezing_def exp_minus divide_inverse)

lemma s_squeezing_r_0 [simp]: "s_squeezing s 0 = s"
  by (simp add: s_squeezing_def)

lemma s_squeezing_s_0 [simp]: "s_squeezing 0 r = 0"
  by (simp add: s_squeezing_def)

lemma s_squeezing_even [simp]: "s_squeezing s (- r) = s_squeezing s r"
  by (simp add: s_squeezing_def)

lemma s_squeezing_abs: "s_squeezing s \<bar>r\<bar> = s_squeezing s r"
  by (simp add: s_squeezing_def)

lemma exp_2abs_ge_1: "1 \<le> exp (2 * \<bar>r::real\<bar>)"
  by simp

lemma exp_m2abs_le_1: "exp (- (2 * \<bar>r::real\<bar>)) \<le> 1"
  by simp

lemma s_squeezing_sign: "0 \<le> s_squeezing s r \<longleftrightarrow> 0 \<le> s"
  by (cases "0 \<le> s") (simp_all add: s_squeezing_nonneg s_squeezing_neg zero_le_mult_iff not_le)

lemma s_squeezing_le: "s_squeezing s r \<le> s"
proof (cases "0 \<le> s")
  case True
  then have "s * exp (- (2 * \<bar>r\<bar>)) \<le> s * 1"
    by (intro mult_left_mono exp_m2abs_le_1)
  with True show ?thesis by (simp add: s_squeezing_nonneg)
next
  case False
  then have "s * exp (2 * \<bar>r\<bar>) \<le> s * 1"
    by (intro mult_left_mono_neg exp_2abs_ge_1) simp
  with False show ?thesis by (simp add: s_squeezing_neg)
qed

lemma s_squeezing_nonneg_bounds: "0 \<le> s \<Longrightarrow> 0 \<le> s_squeezing s r \<and> s_squeezing s r \<le> s"
  by (simp add: s_squeezing_sign s_squeezing_le)

lemma s_squeezing_in_range [range_intros]:
  "0 \<le> s \<Longrightarrow> s \<le> 1 \<Longrightarrow> in_range (s_squeezing s r)"
  using s_squeezing_nonneg_bounds [of s r] by (auto simp: in_range_def)

lemma s_squeezing_neg_in_range_iff:
  assumes "s < 0"
  shows "in_range (s_squeezing s r) \<longleftrightarrow> 2 * \<bar>r\<bar> \<le> - ln (- s)"
proof -
  have neg: "s * exp (2 * \<bar>r\<bar>) < 0"
    using assms by (simp add: mult_neg_pos)
  then have "in_range (s_squeezing s r) \<longleftrightarrow> - 1 \<le> s * exp (2 * \<bar>r\<bar>)"
    using assms by (auto simp: in_range_def s_squeezing_neg)
  also have "\<dots> \<longleftrightarrow> (- s) * exp (2 * \<bar>r\<bar>) \<le> 1"
    by auto
  also have "\<dots> \<longleftrightarrow> exp (2 * \<bar>r\<bar>) \<le> 1 / (- s)"
    using assms by (simp add: field_simps)
  also have "\<dots> \<longleftrightarrow> exp (2 * \<bar>r\<bar>) \<le> exp (- ln (- s))"
    using assms by (simp add: exp_minus inverse_eq_divide)
  also have "\<dots> \<longleftrightarrow> 2 * \<bar>r\<bar> \<le> - ln (- s)"
    by (rule exp_le_cancel_iff)
  finally show ?thesis .
qed

lemma s_squeezing_antimono:
  assumes "\<bar>r1\<bar> \<le> \<bar>r2\<bar>"
  shows "s_squeezing s r2 \<le> s_squeezing s r1"
proof (cases "0 \<le> s")
  case True
  have "exp (- (2 * \<bar>r2\<bar>)) \<le> exp (- (2 * \<bar>r1\<bar>))" using assms by simp
  with True show ?thesis by (simp add: s_squeezing_nonneg mult_left_mono)
next
  case False
  have "exp (2 * \<bar>r1\<bar>) \<le> exp (2 * \<bar>r2\<bar>)" using assms by simp
  with False show ?thesis by (simp add: s_squeezing_neg mult_left_mono_neg)
qed

lemma s_squeezing_compose: "s_squeezing (s_squeezing s r1) r2 = s_squeezing s (\<bar>r1\<bar> + \<bar>r2\<bar>)"
proof (cases "0 \<le> s")
  case True
  then have "0 \<le> s_squeezing s r1" by (simp add: s_squeezing_sign)
  then have "s_squeezing (s_squeezing s r1) r2 = s * (exp (- (2 * \<bar>r1\<bar>)) * exp (- (2 * \<bar>r2\<bar>)))"
    using True by (simp add: s_squeezing_nonneg)
  also have "\<dots> = s * exp (- (2 * (\<bar>r1\<bar> + \<bar>r2\<bar>)))"
    by (simp add: exp_add [symmetric] algebra_simps)
  finally show ?thesis using True by (simp add: s_squeezing_nonneg)
next
  case False
  then have "s_squeezing s r1 < 0" using s_squeezing_sign [of s r1] by simp
  then have "s_squeezing (s_squeezing s r1) r2 = s * (exp (2 * \<bar>r1\<bar>) * exp (2 * \<bar>r2\<bar>))"
    using False by (simp add: s_squeezing_neg)
  also have "\<dots> = s * exp (2 * (\<bar>r1\<bar> + \<bar>r2\<bar>))"
    by (simp add: exp_add [symmetric] algebra_simps)
  finally show ?thesis using False by (simp add: s_squeezing_neg)
qed

section \<open>Beam splitter\<close>

lemma s_beamsplitter_commute: "s_beamsplitter a b theta = s_beamsplitter b a theta'"
  by (simp add: s_beamsplitter_def min.commute)

lemma s_beamsplitter_idem [simp]: "s_beamsplitter a a theta = a"
  by (simp add: s_beamsplitter_def)

lemma s_beamsplitter_absorb [simp]:
  "s_beamsplitter (s_beamsplitter a b theta) b theta' = s_beamsplitter a b theta"
  "s_beamsplitter a (s_beamsplitter a b theta) theta' = s_beamsplitter a b theta"
  by (simp_all add: s_beamsplitter_def)

lemma s_beamsplitter_le: "s_beamsplitter a b theta \<le> a" "s_beamsplitter a b theta \<le> b"
  by (simp_all add: s_beamsplitter_def)

lemma s_beamsplitter_in_range [range_intros]:
  "in_range a \<Longrightarrow> in_range b \<Longrightarrow> in_range (s_beamsplitter a b theta)"
  by (simp add: s_beamsplitter_def in_range_min)

section \<open>Cubic phase\<close>

lemma s_cubic_1 [simp]: "s_cubic 1 gamma = - 1"
  by (simp add: s_cubic_def)

lemma s_cubic_not_1: "s \<noteq> 1 \<Longrightarrow> s_cubic s gamma = - 100"
  by (simp add: s_cubic_def)

lemma s_cubic_in_range_iff: "in_range (s_cubic s gamma) \<longleftrightarrow> s = 1"
  by (simp add: s_cubic_def)

lemma s_cubic_twice [simp]: "s_cubic (s_cubic s gamma) gamma' = - 100"
  by (simp add: s_cubic_def)

section \<open>Properties\<close>

text \<open>
  \<^bold>\<open>C33\<close> (bounds). For an ordering parameter below 1, the loss gate keeps the result
  in \<open>[-1, 1]\<close> exactly for the loss parameters between 0 and \<open>2 / (1 - s)\<close>: a
  negative \<open>eta\<close> pushes the result above 1, a large one below -1. The source accepts
  any real \<open>eta\<close> and relies on the range check of the loop.
\<close>

theorem s_losses_admissible:
  assumes "s < 1"
  shows "in_range (s_losses s eta) \<longleftrightarrow> 0 \<le> eta \<and> eta \<le> 2 / (1 - s)"
proof -
  have pos: "0 < 1 - s" using assms by simp
  have "0 \<le> eta * (1 - s) \<longleftrightarrow> 0 \<le> eta"
    using pos by (simp add: zero_le_mult_iff)
  moreover have "eta * (1 - s) \<le> 2 \<longleftrightarrow> eta \<le> 2 / (1 - s)"
    using pos by (simp add: pos_le_divide_eq)
  ultimately show ?thesis by (simp add: s_losses_in_range_iff)
qed

theorem s_losses_admissible_witness:
  "(0::real) < 1 \<and> \<not> in_range (s_losses 0 3) \<and> in_range (s_losses 0 2) \<and> s_losses 0 3 = - 2"
  using s_losses_admissible [of 0 3] s_losses_admissible [of 0 2] by (simp add: s_losses_def)

text \<open>
  \<^bold>\<open>C34\<close> (bounds). The squeezing gate never increases the ordering parameter and
  never changes its sign: a non-negative parameter shrinks towards 0 and stays in
  range, a negative one moves away from 0 and passes the range check exactly when
  \<open>-s * exp (2 * \<bar>r\<bar>) \<le> 1\<close>.
\<close>

theorem s_squeezing_range:
  "s_squeezing s r \<le> s \<and> (0 \<le> s_squeezing s r \<longleftrightarrow> 0 \<le> s) \<and>
   (in_range (s_squeezing s r) \<longleftrightarrow>
      (if 0 \<le> s then s \<le> exp (2 * \<bar>r\<bar>) else - s * exp (2 * \<bar>r\<bar>) \<le> 1))"
proof (cases "0 \<le> s")
  case True
  have nn: "0 \<le> s / exp (2 * \<bar>r\<bar>)" using True by simp
  have "in_range (s_squeezing s r) \<longleftrightarrow> - 1 \<le> s / exp (2 * \<bar>r\<bar>) \<and> s / exp (2 * \<bar>r\<bar>) \<le> 1"
    using True by (simp only: in_range_def s_squeezing_def if_True)
  also have "\<dots> \<longleftrightarrow> s / exp (2 * \<bar>r\<bar>) \<le> 1"
    using nn by argo
  also have "\<dots> \<longleftrightarrow> s \<le> exp (2 * \<bar>r\<bar>)"
    by (simp add: pos_divide_le_eq)
  finally show ?thesis using True by (simp add: s_squeezing_le s_squeezing_sign)
next
  case False
  then have neg: "s * exp (2 * \<bar>r\<bar>) < 0" by (simp add: mult_neg_pos)
  then have "in_range (s_squeezing s r) \<longleftrightarrow> - s * exp (2 * \<bar>r\<bar>) \<le> 1"
    using False by (auto simp: in_range_def s_squeezing_neg)
  then show ?thesis using False by (simp add: s_squeezing_le s_squeezing_sign)
qed

theorem s_squeezing_range_witness:
  "s_squeezing (1/2) 0 = 1/2 \<and> in_range (s_squeezing (1/2) 0) \<and> \<not> in_range (s_squeezing (- 1) (ln 2))"
  using s_squeezing_range [of "1/2" 0] s_squeezing_range [of "- 1" "ln 2"]
  by (simp add: exp_of_nat_mult [of 2 "ln 2", simplified] abs_of_nonneg)

text \<open>
  \<^bold>\<open>C35\<close> (functional). Two squeezing gates in a row on one mode act as one gate whose
  parameter is the sum of the absolute values, and two loss gates as one whose parameter
  is the product: the order of equal-kind neighbours on a mode does not matter.
\<close>

theorem gates_compose:
  "s_squeezing (s_squeezing s r1) r2 = s_squeezing s (\<bar>r1\<bar> + \<bar>r2\<bar>) \<and>
   s_squeezing (s_squeezing s r1) r2 = s_squeezing (s_squeezing s r2) r1 \<and>
   s_losses (s_losses s a) b = s_losses s (a * b) \<and>
   s_losses (s_losses s a) b = s_losses (s_losses s b) a"
  by (simp add: s_squeezing_compose s_losses_compose add.commute mult.commute)

end

