(* ===== verification/QPD_Circuit.thy ===== *)
theory QPD_Circuit
  imports QPD_Prelude
begin

text \<open>
  The data that \<open>parse_input\<close> hands to \<open>process_list\<close> in \<^verbatim>\<open>src/s-QPDs.py\<close>: the
  ordered list \<open>x\<close> of gate tuples and the dictionary \<open>data\<close> that groups their
  payloads by tag. A tuple \<open>(kind, val1, val2)\<close> is an \<open>Item1\<close>, a tuple
  \<open>('B', val1, val2, val3)\<close> an \<open>ItemB\<close>; mode numbers are Python integers. The
  well-formedness predicate \<open>wf_item\<close> states what the parser guarantees about the
  tuples it builds and what the engine may therefore rely on.
\<close>

section \<open>Gate tuples\<close>

datatype item = Item1 kind real int | ItemB real int int

text \<open>\<open>item[0]\<close>, the tag the engine dispatches on.\<close>

fun tag :: "item \<Rightarrow> kind" where
  "tag (Item1 k v m) = k"
| "tag (ItemB v a b) = KB"

text \<open>\<open>item[1]\<close>, the real parameter of the gate.\<close>

fun param :: "item \<Rightarrow> real" where
  "param (Item1 k v m) = v"
| "param (ItemB v a b) = v"

text \<open>The mode numbers of a tuple, \<open>item[2:]\<close>.\<close>

fun modes :: "item \<Rightarrow> int list" where
  "modes (Item1 k v m) = [m]"
| "modes (ItemB v a b) = [a, b]"

section \<open>The dictionary of payloads\<close>

text \<open>
  The values of \<open>data\<close> are lists of tuples without the tag: \<open>(val1, val2)\<close> under
  the keys \<open>'S'\<close>, \<open>'R'\<close>, \<open>'C'\<close>, \<open>'L'\<close> and \<open>(val1, val2, val3)\<close> under \<open>'B'\<close>.
  The dictionary always has exactly the five keys, so it is a total function on
  \<open>kind\<close>.
\<close>

datatype payload = Pay1 real int | PayB real int int

type_synonym data = "kind \<Rightarrow> payload list"

definition empty_data :: data where
  "empty_data = (\<lambda>k. [])"

text \<open>\<open>data[k].append(p)\<close>.\<close>

definition data_append :: "data \<Rightarrow> kind \<Rightarrow> payload \<Rightarrow> data" where
  "data_append d k p = d(k := d k @ [p])"

fun payload_of :: "item \<Rightarrow> payload" where
  "payload_of (Item1 k v m) = Pay1 v m"
| "payload_of (ItemB v a b) = PayB v a b"

text \<open>The grouping of a gate list by tag: what \<open>data\<close> holds when \<open>x\<close> holds the list.\<close>

definition group_by_tag :: "item list \<Rightarrow> data" where
  "group_by_tag x = (\<lambda>k. map payload_of (filter (\<lambda>i. tag i = k) x))"

section \<open>Well-formed tuples\<close>

text \<open>
  A three-element tuple never carries the tag \<open>'B'\<close>, and every mode number is at
  least 1 (the check of \<open>_to_nat\<close>).
\<close>

fun wf_item :: "item \<Rightarrow> bool" where
  "wf_item (Item1 k v m) \<longleftrightarrow> k \<noteq> KB \<and> 1 \<le> m"
| "wf_item (ItemB v a b) \<longleftrightarrow> 1 \<le> a \<and> 1 \<le> b"

text \<open>Every mode of the tuple addresses an entry of a vector of length \<open>n\<close>.\<close>

definition modes_within :: "nat \<Rightarrow> item \<Rightarrow> bool" where
  "modes_within n i \<longleftrightarrow> (\<forall>m \<in> set (modes i). 0 \<le> m \<and> m < int n)"

section \<open>Lemmas\<close>

lemma wf_item_modes: "wf_item i \<Longrightarrow> m \<in> set (modes i) \<Longrightarrow> 1 \<le> m"
  by (cases i) auto

lemma wf_item_iff: "wf_item i \<longleftrightarrow> (\<forall>m \<in> set (modes i). 1 \<le> m) \<and> (tag i = KB \<longleftrightarrow> (\<exists>v a b. i = ItemB v a b))"
  by (cases i) auto

lemma modes_within_simps [simp]:
  "modes_within n (Item1 k v m) \<longleftrightarrow> 0 \<le> m \<and> m < int n"
  "modes_within n (ItemB v a b) \<longleftrightarrow> 0 \<le> a \<and> a < int n \<and> 0 \<le> b \<and> b < int n"
  by (auto simp: modes_within_def)

lemma modes_within_mono: "modes_within n i \<Longrightarrow> n \<le> n' \<Longrightarrow> modes_within n' i"
  by (auto simp: modes_within_def)

lemma group_by_tag_Nil [simp]: "group_by_tag [] = empty_data"
  by (simp add: group_by_tag_def empty_data_def)

lemma group_by_tag_snoc:
  "group_by_tag (x @ [i]) = data_append (group_by_tag x) (tag i) (payload_of i)"
  by (auto simp: group_by_tag_def data_append_def fun_eq_iff)

lemma length_group_by_tag: "length (group_by_tag x k) = length (filter (\<lambda>i. tag i = k) x)"
  by (simp add: group_by_tag_def)

lemma sum_length_group_by_tag:
  "length (group_by_tag x KS) + length (group_by_tag x KR) + length (group_by_tag x KC)
     + length (group_by_tag x KL) + length (group_by_tag x KB) = length x"
proof (induction x)
  case Nil
  show ?case by (simp add: empty_data_def)
next
  case (Cons i x)
  then show ?case by (cases "tag i") (simp_all add: group_by_tag_def)
qed

lemma sum_length_data: "(\<Sum>k \<in> UNIV. length (group_by_tag x k)) = length x"
  using sum_length_group_by_tag [of x] by (simp add: UNIV_kind)

end
