(* ===== verification/QPD_Engine.thy ===== *)
theory QPD_Engine
  imports QPD_Gates QPD_Circuit
begin

text \<open>
  The propagation loop of \<open>process_list\<close> in \<^verbatim>\<open>src/s-QPDs.py\<close> (lines 101--123),
  as programs over the vector \<open>s_in\<close> that the caller owns. \<open>apply_gate\<close> is the body
  of the loop for one tuple, with one equation per branch of the \<open>if\<close>/\<open>elif\<close>
  chain; \<open>update_mode\<close> is the read--compute--write--check sequence that the branches
  \<open>'S'\<close>, \<open>'L'\<close> and \<open>'C'\<close> share, \<open>beamsplit\<close> the two assignments and the check of
  the branch \<open>'B'\<close>, in the order of the source; \<open>process_items\<close> is the loop over
  \<open>enumerate(x)\<close>. Every list access can raise \<open>IndexError\<close>, every range check
  \<open>OutOfRange\<close>, and what was written before stays in the store.

  The lemmas first reduce each branch to a characteristic equation over plain list
  update, then give one case analysis (\<open>apply_gate_cases\<close>) that covers every outcome
  of a gate; the invariants of a gate and of the loop are short proofs over it.
\<close>

section \<open>Definitions\<close>

text \<open>
  The check after a one-mode gate: \<open>if not (-1 <= s_in[m] <= 1): raise ValueError(...)\<close>.
\<close>

definition check_range :: "kind \<Rightarrow> int \<Rightarrow> nat \<Rightarrow> (svec, unit) prog" where
  "check_range k m index =
     sbind (sread m) (\<lambda>y. if \<not> in_range y then sraise (OutOfRange k m index) else sreturn ())"

text \<open>
  \<open>s_in[m] = f(s_in[m])\<close> followed by the check. The right-hand side is evaluated
  first, so an index out of range raises before anything is written.
\<close>

definition update_mode :: "kind \<Rightarrow> (real \<Rightarrow> real) \<Rightarrow> int \<Rightarrow> nat \<Rightarrow> (svec, unit) prog" where
  "update_mode k f m index =
     sbind (sread m) (\<lambda>x. sbind (swrite m (f x)) (\<lambda>_. check_range k m index))"

text \<open>
  The branch \<open>'B'\<close>: two assignments, the second of which reads the entry that the
  first has just written, then the check of both entries; the message names mode \<open>a\<close>.
\<close>

definition beamsplit :: "real \<Rightarrow> int \<Rightarrow> int \<Rightarrow> nat \<Rightarrow> (svec, unit) prog" where
  "beamsplit theta a b index =
     sbind (sread a) (\<lambda>x. sbind (sread b) (\<lambda>y. sbind (swrite a (s_beamsplitter x y theta)) (\<lambda>_.
     sbind (sread a) (\<lambda>x'. sbind (sread b) (\<lambda>y'. sbind (swrite b (s_beamsplitter x' y' theta)) (\<lambda>_.
     sbind (sread a) (\<lambda>u. if \<not> in_range u then sraise (OutOfRange KB a index)
       else sbind (sread b) (\<lambda>w. if \<not> in_range w then sraise (OutOfRange KB a index)
       else sreturn ()))))))))"

text \<open>
  The dispatch on \<open>item[0]\<close>. The branch \<open>'C'\<close> tests \<open>result is not None\<close>, which
  always holds since \<open>s_cubic\<close> returns a number on both branches. A three-element
  tuple tagged \<open>'B'\<close> would raise \<open>IndexError\<close> at \<open>item[3]\<close>; the parser never
  builds one. The branch \<open>'R'\<close> is \<open>pass\<close>: it does not even read the vector.
\<close>

fun apply_gate :: "nat \<Rightarrow> item \<Rightarrow> (svec, unit) prog" where
  "apply_gate index (Item1 KS v m) = update_mode KS (\<lambda>s. s_squeezing s v) m index"
| "apply_gate index (Item1 KL v m) = update_mode KL (\<lambda>s. s_losses s v) m index"
| "apply_gate index (Item1 KC v m) = update_mode KC (\<lambda>s. s_cubic s v) m index"
| "apply_gate index (ItemB v a b) = beamsplit v a b index"
| "apply_gate index (Item1 KB v m) = sbind (sread m) (\<lambda>_. sraise (\<lambda>_. IndexError))"
| "apply_gate index (Item1 KR v m) = sreturn ()"

text \<open>The loop \<open>for index, item in enumerate(x)\<close>, started at \<open>index\<close>.\<close>

fun process_items :: "nat \<Rightarrow> item list \<Rightarrow> (svec, unit) prog" where
  "process_items index [] = sreturn ()"
| "process_items index (item # x) =
     sbind (apply_gate index item) (\<lambda>_. process_items (Suc index) x)"

section \<open>Characteristic equations\<close>

lemma check_range_Some:
  "norm_index (length s) m = Some j \<Longrightarrow>
   check_range k m index s = (s, if in_range (s ! j) then Inr () else Inl (OutOfRange k m index s))"
  by (simp add: check_range_def sbind_def)

lemma update_mode_Some:
  assumes "norm_index (length s) m = Some j"
  shows "update_mode k f m index s =
     (s[j := f (s ! j)],
      if in_range (f (s ! j)) then Inr () else Inl (OutOfRange k m index (s[j := f (s ! j)])))"
proof -
  have j: "j < length s" using assms by (rule norm_index_less)
  have "norm_index (length (s[j := f (s ! j)])) m = Some j" using assms by simp
  then show ?thesis
    using assms j by (simp add: update_mode_def sbind_def check_range_Some)
qed

lemma update_mode_None:
  "norm_index (length s) m = None \<Longrightarrow> update_mode k f m index s = (s, Inl IndexError)"
  by (simp add: update_mode_def sbind_def)

lemma beamsplit_Some:
  assumes a: "norm_index (length s) a = Some ja" and b: "norm_index (length s) b = Some jb"
  shows "beamsplit theta a b index s =
     (let mn = min (s ! ja) (s ! jb); s' = s[ja := mn, jb := mn]
      in (s', if in_range mn then Inr () else Inl (OutOfRange KB a index s')))"
proof -
  let ?mn = "min (s ! ja) (s ! jb)"
  let ?s1 = "s[ja := ?mn]"
  let ?s2 = "?s1[jb := ?mn]"
  have ja: "ja < length s" and jb: "jb < length s"
    using a b by (auto dest: norm_index_less)
  have a1: "norm_index (length ?s1) a = Some ja" and b1: "norm_index (length ?s1) b = Some jb"
    and a2: "norm_index (length ?s2) a = Some ja" and b2: "norm_index (length ?s2) b = Some jb"
    using a b by simp_all
  have r1: "?s1 ! ja = ?mn" using ja by simp
  have m1: "min (?s1 ! ja) (?s1 ! jb) = ?mn"
    using ja jb by (cases "ja = jb") (simp_all add: min_def)
  have r2: "?s2 ! ja = ?mn" "?s2 ! jb = ?mn"
    using ja jb by (simp_all add: nth_list_update)
  have step1: "sbind (sread a) (\<lambda>x. sbind (sread b) (\<lambda>y. sbind (swrite a (s_beamsplitter x y theta)) k)) s
      = k () ?s1" for k :: "unit \<Rightarrow> (svec, unit) prog"
    using a b by (simp add: sbind_def s_beamsplitter_def)
  have step2: "sbind (sread a) (\<lambda>x. sbind (sread b) (\<lambda>y. sbind (swrite b (s_beamsplitter x y theta)) k)) ?s1
      = k () ?s2" for k :: "unit \<Rightarrow> (svec, unit) prog"
    using a1 b1 m1 by (simp add: sbind_def s_beamsplitter_def del: length_list_update)
  show ?thesis
    unfolding beamsplit_def step1 step2
    using a2 b2 r2 by (simp add: sbind_def Let_def del: length_list_update)
qed

lemma beamsplit_None:
  "norm_index (length s) a = None \<or> norm_index (length s) b = None \<Longrightarrow>
   beamsplit theta a b index s = (s, Inl IndexError)"
  by (cases "norm_index (length s) a") (auto simp: beamsplit_def sbind_def)

text \<open>The two branches of each statement in one equation, for evaluation.\<close>

lemma update_mode_eq:
  "update_mode k f m index s =
     (case norm_index (length s) m of
        None \<Rightarrow> (s, Inl IndexError)
      | Some j \<Rightarrow> (s[j := f (s ! j)],
          if in_range (f (s ! j)) then Inr () else Inl (OutOfRange k m index (s[j := f (s ! j)]))))"
  by (simp add: update_mode_Some update_mode_None split: option.split)

lemma beamsplit_eq:
  "beamsplit theta a b index s =
     (case (norm_index (length s) a, norm_index (length s) b) of
        (Some ja, Some jb) \<Rightarrow>
          (let mn = min (s ! ja) (s ! jb); s' = s[ja := mn, jb := mn]
           in (s', if in_range mn then Inr () else Inl (OutOfRange KB a index s')))
      | _ \<Rightarrow> (s, Inl IndexError))"
  by (simp add: beamsplit_Some beamsplit_None split: option.split)

lemmas gate_eval = update_mode_eq beamsplit_eq sbind_def sreturn_def Let_def

section \<open>One gate: a case analysis that covers every outcome\<close>

text \<open>The formula that a one-mode gate applies to the entry of its mode.\<close>

fun transfer :: "kind \<Rightarrow> real \<Rightarrow> real \<Rightarrow> real" where
  "transfer KS v s = s_squeezing s v"
| "transfer KL v s = s_losses s v"
| "transfer KC v s = s_cubic s v"
| "transfer KR v s = s"
| "transfer KB v s = s"

lemma transfer_eq:
  "transfer KS v = (\<lambda>s. s_squeezing s v)" "transfer KL v = (\<lambda>s. s_losses s v)"
  "transfer KC v = (\<lambda>s. s_cubic s v)" "transfer KR v = (\<lambda>s. s)"
  by (simp_all add: fun_eq_iff)

lemma apply_gate_update:
  "k \<in> {KS, KL, KC} \<Longrightarrow> apply_gate index (Item1 k v m) = update_mode k (transfer k v) m index"
  by (cases k) (simp_all add: transfer_eq)

lemma apply_gate_cases [case_names IndexError Rotation Update Beam]:
  obtains
    (IndexError) "apply_gate index item s = (s, Inl IndexError)"
      and "\<not> modes_within (length s) item \<or> (\<exists>v m. item = Item1 KB v m)"
  | (Rotation) v m where "item = Item1 KR v m" and "apply_gate index item s = (s, Inr ())"
  | (Update) k v m j y where "item = Item1 k v m" and "k \<in> {KS, KL, KC}"
      and "norm_index (length s) m = Some j" and "y = transfer k v (s ! j)"
      and "apply_gate index item s =
        (s[j := y], if in_range y then Inr () else Inl (OutOfRange k m index (s[j := y])))"
  | (Beam) v a b ja jb mn where "item = ItemB v a b"
      and "norm_index (length s) a = Some ja" and "norm_index (length s) b = Some jb"
      and "mn = min (s ! ja) (s ! jb)"
      and "apply_gate index item s =
        (s[ja := mn, jb := mn],
         if in_range mn then Inr () else Inl (OutOfRange KB a index (s[ja := mn, jb := mn])))"
proof (cases item)
  case (Item1 k v m)
  consider "k = KR" | "k = KB" | "k \<in> {KS, KL, KC}" by (cases k) auto
  then show ?thesis
  proof cases
    case 1
    with Item1 show ?thesis by (intro Rotation [of v m]) simp_all
  next
    case 2
    with Item1 show ?thesis
      by (intro IndexError) (simp_all add: sbind_def sread_apply split: option.splits)
  next
    case 3
    show ?thesis
    proof (cases "norm_index (length s) m")
      case None
      with 3 Item1 show ?thesis
        by (intro IndexError) (auto simp: apply_gate_update update_mode_None norm_index_None_iff)
    next
      case (Some j)
      with 3 Item1 show ?thesis
        by (intro Update [of k v m j "transfer k v (s ! j)"])
          (simp_all only: apply_gate_update update_mode_Some)
    qed
  qed
next
  case (ItemB v a b)
  show ?thesis
  proof (cases "norm_index (length s) a = None \<or> norm_index (length s) b = None")
    case True
    then have "apply_gate index item s = (s, Inl IndexError)"
      using ItemB by (simp add: beamsplit_None)
    moreover have "\<not> modes_within (length s) item"
      using True ItemB by (auto simp: norm_index_None_iff)
    ultimately show ?thesis by (intro IndexError) simp_all
  next
    case False
    then obtain ja jb where "norm_index (length s) a = Some ja" "norm_index (length s) b = Some jb"
      by auto
    with ItemB show ?thesis
      by (intro Beam [of v a b ja jb "min (s ! ja) (s ! jb)"]) (simp_all add: beamsplit_Some Let_def)
  qed
qed

section \<open>Invariants of one gate\<close>

lemma length_apply_gate [simp]: "length (fst (apply_gate index item s)) = length s"
  by (cases rule: apply_gate_cases [of index item s]) simp_all

lemma apply_gate_in_range:
  assumes "all_in_range s" and "apply_gate index item s = (s', Inr u)"
  shows "all_in_range s'"
  using assms
  by (cases rule: apply_gate_cases [of index item s])
    (auto simp: all_in_range_update split: if_splits)

lemma apply_gate_snapshot:
  assumes "apply_gate index item s = (s', Inl (OutOfRange k m i snap))"
  shows "snap = s' \<and> i = index \<and> k = tag item \<and> m = hd (modes item)"
  using assms
  by (cases rule: apply_gate_cases [of index item s]) (auto split: if_splits)

lemma apply_gate_frame:
  assumes "apply_gate index item s = (s', r)"
    and "\<forall>m \<in> set (modes item). norm_index (length s) m \<noteq> Some j"
  shows "s' ! j = s ! j"
  using assms
  by (cases rule: apply_gate_cases [of index item s]) (auto split: if_splits)

lemma apply_gate_failure_store:
  assumes "all_in_range s" and "apply_gate index item s = (s', Inl e)"
  shows "e = IndexError \<and> s' = s \<or>
    (\<exists>j. norm_index (length s) (hd (modes item)) = Some j \<and> e = OutOfRange (tag item) (hd (modes item)) index s'
      \<and> \<not> in_range (s' ! j) \<and> (\<forall>i < length s. i \<noteq> j \<longrightarrow> s' ! i = s ! i))"
  using assms
proof (cases rule: apply_gate_cases [of index item s])
  case (Beam v a b ja jb mn)
  moreover have "in_range mn"
    using Beam assms(1) by (auto intro!: in_range_min all_in_range_nth dest: norm_index_less)
  ultimately show ?thesis using assms(2) by simp
qed (auto split: if_splits dest: norm_index_less)

section \<open>Gates that cannot fail the range check\<close>

lemma rotation_skip [simp]: "apply_gate index (Item1 KR v m) s = (s, Inr ())"
  by simp

lemma beamsplit_never_out_of_range:
  assumes "all_in_range s"
  shows "snd (apply_gate index (ItemB v a b) s) \<in> {Inr (), Inl IndexError}"
proof (cases rule: apply_gate_cases [of index "ItemB v a b" s])
  case (Beam v' a' b' ja jb mn)
  moreover have "in_range mn"
    using Beam assms by (auto intro!: in_range_min all_in_range_nth dest: norm_index_less)
  ultimately show ?thesis by simp
qed simp_all

lemma losses_unit_never_out_of_range:
  assumes "all_in_range s" and "0 \<le> eta" and "eta \<le> 1"
  shows "snd (apply_gate index (Item1 KL eta m) s) \<in> {Inr (), Inl IndexError}"
proof (cases rule: apply_gate_cases [of index "Item1 KL eta m" s])
  case (Update k v m' j y)
  moreover have "in_range y"
    using Update assms by (auto intro!: s_losses_in_range all_in_range_nth dest: norm_index_less)
  ultimately show ?thesis by simp
qed simp_all

lemma squeezing_nonneg_never_out_of_range:
  assumes "all_in_range s" and "norm_index (length s) m = Some j" and "0 \<le> s ! j"
  shows "apply_gate index (Item1 KS r m) s = (s[j := s_squeezing (s ! j) r], Inr ())"
proof -
  have "in_range (s ! j)" using assms by (auto intro: all_in_range_nth dest: norm_index_less)
  then have "in_range (s_squeezing (s ! j) r)"
    using assms(3) by (intro s_squeezing_in_range) (simp_all add: in_range_def)
  then show ?thesis using assms(2) by (simp add: update_mode_Some)
qed

lemma cubic_outcome:
  assumes "norm_index (length s) m = Some j"
  shows "apply_gate index (Item1 KC gamma m) s =
    (if s ! j = 1 then (s[j := - 1], Inr ())
     else (s[j := - 100], Inl (OutOfRange KC m index (s[j := - 100]))))"
  using assms by (simp add: update_mode_Some s_cubic_def)

section \<open>The loop\<close>

lemma process_items_append:
  "process_items index (x @ y) =
     sbind (process_items index x) (\<lambda>_. process_items (index + length x) y)"
  by (induction x arbitrary: index) (simp_all add: sbind_assoc)

lemma length_process_items [simp]: "length (fst (process_items index x s)) = length s"
proof (induction x arbitrary: index s)
  case Nil
  show ?case by simp
next
  case (Cons item x)
  obtain s' r where g: "apply_gate index item s = (s', r)" by (cases "apply_gate index item s")
  then have "length s' = length s" using length_apply_gate [of index item s] by simp
  with g Cons.IH [of "Suc index" s'] show ?case
    by (cases r) (simp_all add: sbind_def)
qed

lemma process_items_in_range:
  assumes "all_in_range s" and "process_items index x s = (s', Inr u)"
  shows "all_in_range s'"
  using assms
proof (induction x arbitrary: index s)
  case Nil
  then show ?case by simp
next
  case (Cons item x)
  from Cons.prems(2) obtain s1 where g: "apply_gate index item s = (s1, Inr ())"
    and rest: "process_items (Suc index) x s1 = (s', Inr u)"
    by (auto simp: sbind_eq_Inr_iff)
  from Cons.prems(1) g have "all_in_range s1" by (rule apply_gate_in_range)
  then show ?case using rest by (rule Cons.IH)
qed

lemma process_items_snoc:
  "process_items index (x @ [item]) =
     sbind (process_items index x) (\<lambda>_. apply_gate (index + length x) item)"
  by (simp add: process_items_append fun_eq_iff sbind_def split: prod.splits sum.splits)

text \<open>
  A failing run splits at the first failing gate: the gates before it ran to the end,
  the failing gate raised, and the store is the one it left.
\<close>

lemma process_items_failure:
  assumes "process_items index x s = (s', Inl e)"
  shows "\<exists>n s0. n < length x \<and> process_items index (take n x) s = (s0, Inr ())
            \<and> apply_gate (index + n) (x ! n) s0 = (s', Inl e)"
  using assms
proof (induction x arbitrary: index s)
  case Nil
  then show ?case by simp
next
  case (Cons item x)
  from Cons.prems consider (here) "apply_gate index item s = (s', Inl e)"
    | (later) s1 where "apply_gate index item s = (s1, Inr ())"
        "process_items (Suc index) x s1 = (s', Inl e)"
    by (auto simp: sbind_eq_Inl_iff)
  then show ?case
  proof cases
    case here
    then show ?thesis by (intro exI [of _ 0] exI [of _ s]) simp
  next
    case later
    from Cons.IH [OF later(2)] obtain n s0 where n: "n < length x"
      and pre: "process_items (Suc index) (take n x) s1 = (s0, Inr ())"
      and g: "apply_gate (Suc index + n) (x ! n) s0 = (s', Inl e)"
      by blast
    from later(1) pre have "process_items index (take (Suc n) (item # x)) s = (s0, Inr ())"
      by (simp add: sbind_def)
    with n g show ?thesis by (intro exI [of _ "Suc n"] exI [of _ s0]) simp
  qed
qed

lemma process_items_success_prefix:
  assumes "process_items index x s = (s', Inr u)"
  shows "\<exists>sn. process_items index (take n x) s = (sn, Inr ())"
proof -
  have "process_items index (take n x @ drop n x) s = (s', Inr u)"
    using assms by simp
  then show ?thesis
    unfolding process_items_append by (auto simp: sbind_eq_Inr_iff)
qed

lemma process_items_out_of_range:
  assumes "process_items index x s = (s', Inl (OutOfRange k m i snap))"
  shows "snap = s' \<and> index \<le> i \<and> i < index + length x
    \<and> k = tag (x ! (i - index)) \<and> m = hd (modes (x ! (i - index)))"
proof -
  from process_items_failure [OF assms] obtain n s0 where "n < length x"
    and "apply_gate (index + n) (x ! n) s0 = (s', Inl (OutOfRange k m i snap))"
    by blast
  then show ?thesis using apply_gate_snapshot [of "index + n" "x ! n" s0 s' k m i snap] by auto
qed

lemma apply_gate_rotation: "tag item = KR \<Longrightarrow> apply_gate index item s = (s, Inr ())"
  by (cases item) auto

lemma process_items_no_index_error:
  assumes "\<forall>item \<in> set x. wf_item item \<and> (tag item \<noteq> KR \<longrightarrow> modes_within (length s) item)"
  shows "snd (process_items index x s) \<noteq> Inl IndexError"
  using assms
proof (induction x arbitrary: index s)
  case Nil
  show ?case by simp
next
  case (Cons item x)
  obtain s1 r where g: "apply_gate index item s = (s1, r)" by (cases "apply_gate index item s")
  have len: "length s1 = length s" using length_apply_gate [of index item s] g by simp
  have r: "r \<noteq> Inl IndexError"
    using g Cons.prems
    by (cases rule: apply_gate_cases [of index item s])
      (auto simp: apply_gate_rotation split: if_splits)
  show ?case
  proof (cases r)
    case (Inl e)
    with g r show ?thesis by (simp add: sbind_def)
  next
    case (Inr u)
    with g len Cons.IH [of s1 "Suc index"] Cons.prems show ?thesis by (simp add: sbind_def)
  qed
qed

text \<open>Rotations leave the vector alone, whatever their mode.\<close>

lemma process_items_rotations:
  "\<forall>item \<in> set x. tag item = KR \<Longrightarrow> process_items index x s = (s, Inr ())"
proof (induction x arbitrary: index)
  case Nil
  show ?case by simp
next
  case (Cons item x)
  then obtain v m where "item = Item1 KR v m" by (cases item) auto
  with Cons show ?case by (simp add: sbind_def)
qed

lemma process_items_frame:
  assumes "process_items index x s = (s', r)"
    and "\<forall>item \<in> set x. \<forall>m \<in> set (modes item). norm_index (length s) m \<noteq> Some j"
  shows "s' ! j = s ! j"
  using assms
proof (induction x arbitrary: index s)
  case Nil
  then show ?case by simp
next
  case (Cons item x)
  obtain s1 r1 where g: "apply_gate index item s = (s1, r1)" by (cases "apply_gate index item s")
  have len: "length s1 = length s" using length_apply_gate [of index item s] g by simp
  have one: "s1 ! j = s ! j" using apply_gate_frame [OF g, of j] Cons.prems(2) by simp
  show ?case
  proof (cases r1)
    case (Inl e)
    with g Cons.prems(1) one show ?thesis by (simp add: sbind_def)
  next
    case (Inr u)
    with g Cons.prems(1) have "process_items (Suc index) x s1 = (s', r)" by (simp add: sbind_def)
    then have "s' ! j = s1 ! j" using Cons.IH [of "Suc index" s1] Cons.prems(2) len by simp
    with one show ?thesis by simp
  qed
qed

section \<open>Modes beyond the list\<close>

lemma apply_gate_index_error_iff:
  assumes "wf_item item"
  shows "(\<exists>s'. apply_gate index item s = (s', Inl IndexError))
    \<longleftrightarrow> tag item \<noteq> KR \<and> \<not> modes_within (length s) item"
proof (cases rule: apply_gate_cases [of index item s])
  case IndexError
  with assms show ?thesis by (cases item) auto
next
  case (Rotation v m)
  then show ?thesis by simp
next
  case (Update k v m j y)
  with assms show ?thesis by (auto simp: norm_index_Some_iff split: if_splits)
next
  case (Beam v a b ja jb mn)
  with assms show ?thesis by (auto simp: norm_index_Some_iff split: if_splits)
qed

lemma process_items_index_error_iff:
  assumes "list_all wf_item x"
  shows "(\<exists>s'. process_items index x s = (s', Inl IndexError))
    \<longleftrightarrow> (\<exists>n < length x. tag (x ! n) \<noteq> KR \<and> \<not> modes_within (length s) (x ! n)
           \<and> (\<exists>s0. process_items index (take n x) s = (s0, Inr ())))"
proof
  assume "\<exists>s'. process_items index x s = (s', Inl IndexError)"
  then obtain s' where "process_items index x s = (s', Inl IndexError)" ..
  from process_items_failure [OF this] obtain n s0 where n: "n < length x"
    and pre: "process_items index (take n x) s = (s0, Inr ())"
    and g: "apply_gate (index + n) (x ! n) s0 = (s', Inl IndexError)"
    by blast
  from assms n have wf: "wf_item (x ! n)" by (simp add: list_all_length)
  have "length s0 = length s" using length_process_items [of index "take n x" s] pre by simp
  with apply_gate_index_error_iff [OF wf, of "index + n" s0] g
  have "tag (x ! n) \<noteq> KR \<and> \<not> modes_within (length s) (x ! n)" by auto
  with n pre show "\<exists>n < length x. tag (x ! n) \<noteq> KR \<and> \<not> modes_within (length s) (x ! n)
      \<and> (\<exists>s0. process_items index (take n x) s = (s0, Inr ()))"
    by blast
next
  assume "\<exists>n < length x. tag (x ! n) \<noteq> KR \<and> \<not> modes_within (length s) (x ! n)
      \<and> (\<exists>s0. process_items index (take n x) s = (s0, Inr ()))"
  then obtain n s0 where n: "n < length x"
    and bad: "tag (x ! n) \<noteq> KR" "\<not> modes_within (length s) (x ! n)"
    and pre: "process_items index (take n x) s = (s0, Inr ())"
    by blast
  from assms n have wf: "wf_item (x ! n)" by (simp add: list_all_length)
  have "length s0 = length s" using length_process_items [of index "take n x" s] pre by simp
  with apply_gate_index_error_iff [OF wf, of "index + n" s0] bad
  obtain s' where g: "apply_gate (index + n) (x ! n) s0 = (s', Inl IndexError)" by auto
  from n have "x = take n x @ x ! n # drop (Suc n) x" by (simp add: id_take_nth_drop)
  then have "process_items index x s
      = process_items index (take n x @ x ! n # drop (Suc n) x) s" by simp
  also have "\<dots> = (s', Inl IndexError)"
    using pre g n by (simp add: process_items_append sbind_def del: append_take_drop_id)
  finally show "\<exists>s'. process_items index x s = (s', Inl IndexError)" ..
qed

section \<open>Evaluation\<close>

text \<open>The equations that evaluate a run on a concrete vector.\<close>

lemmas engine_eval =
  update_mode_def beamsplit_def check_range_def sbind_def sread_def swrite_def
  getitem_def setitem_def norm_index_def in_range_def gate_defs

lemma process_items_failure_kind:
  assumes "process_items index x s = (s', Inl e)"
  shows "e = IndexError \<or>
    (\<exists>k m i. e = OutOfRange k m i s' \<and> (all_in_range s \<longrightarrow> \<not> all_in_range s'))"
proof -
  from process_items_failure [OF assms] obtain n s0 where n: "n < length x"
    and pre: "process_items index (take n x) s = (s0, Inr ())"
    and g: "apply_gate (index + n) (x ! n) s0 = (s', Inl e)"
    by blast
  have kind: "e = IndexError \<or> e = OutOfRange (tag (x ! n)) (hd (modes (x ! n))) (index + n) s'"
    using g by (cases rule: apply_gate_cases [of "index + n" "x ! n" s0]) (auto split: if_splits)
  have "\<not> all_in_range s'" if s: "all_in_range s" and e: "e \<noteq> IndexError"
  proof -
    from process_items_in_range [OF s pre] have "all_in_range s0" .
    from apply_gate_failure_store [OF this g] e obtain j
      where j: "norm_index (length s0) (hd (modes (x ! n))) = Some j" and out: "\<not> in_range (s' ! j)"
      by blast
    have "j < length s'"
      using norm_index_less [OF j] length_apply_gate [of "index + n" "x ! n" s0] g by simp
    with out show ?thesis by (auto simp: list_all_length)
  qed
  with kind show ?thesis by blast
qed

lemma process_items_entry_0:
  assumes "list_all wf_item x"
  shows "fst (process_items index x s) ! 0 = s ! 0"
proof -
  obtain s' r where run: "process_items index x s = (s', r)" by (cases "process_items index x s")
  have "\<forall>item \<in> set x. \<forall>m \<in> set (modes item). norm_index (length s) m \<noteq> Some 0"
    using assms by (auto simp: list_all_iff norm_index_Some_iff dest!: wf_item_modes)
  from process_items_frame [OF run this] run show ?thesis by simp
qed

section \<open>Properties\<close>

text \<open>
  \<^bold>\<open>C1\<close> (invariant). A run of the loop that starts from a vector whose entries all
  lie in \<open>[-1, 1]\<close> and that ends without an exception returns a vector of the same
  length whose entries all lie in \<open>[-1, 1]\<close>.
\<close>

theorem engine_range_invariant:
  assumes "all_in_range s" and "process_items index x s = (s', Inr u)"
  shows "all_in_range s' \<and> length s' = length s"
  using process_items_in_range [OF assms] length_process_items [of index x s] assms(2)
  by simp

theorem engine_range_invariant_witness:
  "all_in_range [0, 0, 1] \<and>
   process_items 0 [Item1 KL (1/2) 1, Item1 KC 0 2, ItemB 7 1 2] [0, 0, 1] = ([0, - 1, - 1], Inr ()) \<and>
   all_in_range [0, - 1, - 1] \<and> length [0, - 1, - 1 :: real] = length [0, 0, 1 :: real]"
proof -
  have run: "process_items 0 [Item1 KL (1/2) 1, Item1 KC 0 2, ItemB 7 1 2] [0, 0, 1]
      = ([0, - 1, - 1], Inr ())"
    by (simp add: engine_eval)
  have "all_in_range [0, 0, 1]" by simp
  from engine_range_invariant [OF this run] run show ?thesis by simp
qed

text \<open>
  \<^bold>\<open>C2\<close> (error). A run that raises stops at the first failing gate: the gates before
  it were applied in full, none after it is applied, and the vector is left as the
  failing gate left it. If the exception is the range failure, its message carries that
  vector, the number of the failing gate in the circuit, that gate's tag and its first
  mode.
\<close>

theorem engine_first_failure:
  assumes "process_items index x s = (s', Inl e)"
  shows "\<exists>n s0. n < length x \<and> process_items index (take n x) s = (s0, Inr ())
      \<and> apply_gate (index + n) (x ! n) s0 = (s', Inl e)
      \<and> (e = IndexError \<and> s' = s0 \<or>
         e = OutOfRange (tag (x ! n)) (hd (modes (x ! n))) (index + n) s')"
proof -
  from process_items_failure [OF assms] obtain n s0 where n: "n < length x"
    and pre: "process_items index (take n x) s = (s0, Inr ())"
    and g: "apply_gate (index + n) (x ! n) s0 = (s', Inl e)"
    by blast
  have "e = IndexError \<and> s' = s0 \<or> e = OutOfRange (tag (x ! n)) (hd (modes (x ! n))) (index + n) s'"
    using g by (cases rule: apply_gate_cases [of "index + n" "x ! n" s0]) (auto split: if_splits)
  with n pre g show ?thesis by blast
qed

theorem engine_first_failure_witness:
  "process_items 0 [Item1 KR 1 9, Item1 KL 3 1, Item1 KS 1 0] [1, 0]
     = ([1, - 2], Inl (OutOfRange KL 1 1 [1, - 2])) \<and>
   (\<exists>n s0. n < length [Item1 KR 1 9, Item1 KL 3 1, Item1 KS 1 0]
      \<and> process_items 0 (take n [Item1 KR 1 9, Item1 KL 3 1, Item1 KS 1 0]) [1, 0] = (s0, Inr ())
      \<and> apply_gate (0 + n) ([Item1 KR 1 9, Item1 KL 3 1, Item1 KS 1 0] ! n) s0
          = ([1, - 2], Inl (OutOfRange KL 1 1 [1, - 2]))
      \<and> (OutOfRange KL 1 1 [1, - 2] = IndexError \<and> [1, - 2] = s0 \<or>
         OutOfRange KL 1 1 [1, - 2]
           = OutOfRange (tag ([Item1 KR 1 9, Item1 KL 3 1, Item1 KS 1 0] ! n))
               (hd (modes ([Item1 KR 1 9, Item1 KL 3 1, Item1 KS 1 0] ! n))) (0 + n) [1, - 2]))"
proof -
  have run: "process_items 0 [Item1 KR 1 9, Item1 KL 3 1, Item1 KS 1 0] [1, 0]
      = ([1, - 2], Inl (OutOfRange KL 1 1 [1, - 2]))"
    by (simp add: engine_eval)
  from run engine_first_failure [OF run] show ?thesis by (rule conjI)
qed

text \<open>
  \<^bold>\<open>C5\<close> (equivalence). The beam-splitter branch assigns the two entries one after the
  other, and the second assignment reads what the first has written. The result is
  nevertheless the simultaneous update from the values before the gate: both entries get
  the minimum of the two old values, also when the two modes are the same entry, and the
  angle plays no role. After the gate the two entries are equal, so applying it again
  changes nothing.
\<close>

theorem beamsplit_snapshot:
  assumes "norm_index (length s) a = Some ja" and "norm_index (length s) b = Some jb"
  shows "fst (beamsplit theta a b index s) = s[ja := min (s ! ja) (s ! jb), jb := min (s ! ja) (s ! jb)]
    \<and> fst (beamsplit theta' b a index' s) = fst (beamsplit theta a b index s)
    \<and> fst (beamsplit theta' a b index' (fst (beamsplit theta a b index s))) = fst (beamsplit theta a b index s)"
proof -
  let ?mn = "min (s ! ja) (s ! jb)"
  let ?s' = "s[ja := ?mn, jb := ?mn]"
  have ja: "ja < length s" and jb: "jb < length s"
    using assms by (auto dest: norm_index_less)
  have 1: "fst (beamsplit theta a b index s) = ?s'" for theta index
    using assms by (simp add: beamsplit_Some Let_def)
  have 2: "fst (beamsplit theta' b a index' s) = s[jb := ?mn, ja := ?mn]"
    using assms by (simp add: beamsplit_Some Let_def min.commute)
  have swap: "s[jb := ?mn, ja := ?mn] = ?s'"
    by (cases "ja = jb") (simp_all add: list_update_swap)
  have a': "norm_index (length ?s') a = Some ja" and b': "norm_index (length ?s') b = Some jb"
    using assms by simp_all
  have vals: "?s' ! ja = ?mn" "?s' ! jb = ?mn"
    using ja jb by (simp_all add: nth_list_update)
  have idem: "?s'[ja := ?mn, jb := ?mn] = ?s'"
    by (metis vals list_update_id)
  have 3: "fst (beamsplit theta' a b index' ?s') = ?s'"
    by (simp only: beamsplit_Some [OF a' b'] Let_def fst_conv vals min.idem idem)
  from 1 2 3 swap show ?thesis by simp
qed

theorem beamsplit_snapshot_witness:
  "fst (beamsplit 0 1 2 0 [0, 3/10, - 1/10]) = [0, - 1/10, - 1/10] \<and>
   fst (beamsplit 0 1 1 0 [0, 3/10, - 1/10]) = [0, 3/10, - 1/10] \<and>
   fst (beamsplit 5 2 1 7 [0, 3/10, - 1/10]) = fst (beamsplit 0 1 2 0 [0, 3/10, - 1/10])"
  using beamsplit_snapshot [of "[0, 3/10, - 1/10]" 1 1 2 2 0 0 5 7]
    beamsplit_snapshot [of "[0, 3/10, - 1/10]" 1 1 1 1 0 0 0 0]
  by simp

text \<open>
  \<^bold>\<open>C21\<close> (error). The cubic phase gate on a mode whose entry is 1 sets it to -1. On
  any other entry it does not leave the vector alone: it stores the sentinel -100 and
  then fails the range check, so the exception it raises is the range failure, with the
  -100 in the vector that the message prints and that the caller keeps.
\<close>

theorem engine_cubic:
  assumes "norm_index (length s) m = Some j"
  shows "apply_gate index (Item1 KC gamma m) s =
    (if s ! j = 1 then (s[j := - 1], Inr ())
     else (s[j := - 100], Inl (OutOfRange KC m index (s[j := - 100]))))"
  using assms by (simp add: update_mode_Some s_cubic_def)

theorem engine_cubic_witness:
  "apply_gate 0 (Item1 KC 0 4) [0, 0, 0, 0, 1] = ([0, 0, 0, 0, - 1], Inr ()) \<and>
   apply_gate 0 (Item1 KC 0 4) [0, 0, 0, 0, 1/2]
     = ([0, 0, 0, 0, - 100], Inl (OutOfRange KC 4 0 [0, 0, 0, 0, - 100]))"
  using engine_cubic [of "[0, 0, 0, 0, 1]" 4 4 0 0] engine_cubic [of "[0, 0, 0, 0, 1/2]" 4 4 0 0]
  by simp

text \<open>
  \<^bold>\<open>C20\<close> (safety). A circuit of well-formed tuples whose modes, rotations apart, all
  address an entry of the vector never raises \<open>IndexError\<close>; and whatever the circuit
  does, an entry that none of its modes addresses keeps its value. Since mode numbers
  are at least 1 and index the list from 0, entry 0 of the vector is never read or
  written.
\<close>

theorem engine_index_safety:
  assumes "\<forall>item \<in> set x. wf_item item"
  shows "((\<forall>item \<in> set x. tag item \<noteq> KR \<longrightarrow> modes_within (length s) item)
            \<longrightarrow> snd (process_items index x s) \<noteq> Inl IndexError)
    \<and> (s \<noteq> [] \<longrightarrow> fst (process_items index x s) ! 0 = s ! 0)"
proof (intro conjI impI)
  assume "\<forall>item \<in> set x. tag item \<noteq> KR \<longrightarrow> modes_within (length s) item"
  with assms show "snd (process_items index x s) \<noteq> Inl IndexError"
    by (intro process_items_no_index_error) simp
next
  assume "s \<noteq> []"
  obtain s' r where run: "process_items index x s = (s', r)" by (cases "process_items index x s")
  have "\<forall>item \<in> set x. \<forall>m \<in> set (modes item). norm_index (length s) m \<noteq> Some 0"
    using assms by (auto simp: norm_index_Some_iff dest!: wf_item_modes)
  from process_items_frame [OF run this] run
  show "fst (process_items index x s) ! 0 = s ! 0" by simp
qed

theorem engine_index_safety_witness:
  "snd (process_items 0 [Item1 KR 1 9, ItemB 0 1 2] [1/2, 0, 0]) \<noteq> Inl IndexError \<and>
   fst (process_items 0 [Item1 KR 1 9, ItemB 0 1 2] [1/2, 0, 0]) ! 0 = 1/2"
  using engine_index_safety [of "[Item1 KR 1 9, ItemB 0 1 2]" "[1/2, 0, 0]" 0]
  by simp

end

