(* ===== verification/QPD_Machine.thy ===== *)
theory QPD_Machine
  imports QPD_Engine
begin

text \<open>
  The loop of \<open>process_list\<close> (\<^verbatim>\<open>src/s-QPDs.py\<close>, lines 101--123) once more, as a
  machine that applies one gate per step, to state what holds between two iterations. A
  configuration holds what the loop holds there: the gate counter of \<open>enumerate\<close>,
  the tuples still to come, the list \<open>s_in\<close>, and the exception once one has been
  raised. The step relation has one rule for an iteration that completes and one for an
  iteration that raises; \<open>next_config\<close> is the same step as a function, by which a
  concrete step is computed. The invariant of the loop is proved by rule induction over
  the configurations a run passes through.
\<close>

section \<open>Configurations and steps\<close>

record machine =
  counter :: nat
  pending :: "item list"
  store :: svec
  raised :: "error option"

definition start :: "nat \<Rightarrow> item list \<Rightarrow> svec \<Rightarrow> machine" where
  "start index x s = \<lparr>counter = index, pending = x, store = s, raised = None\<rparr>"

inductive step :: "machine \<Rightarrow> machine \<Rightarrow> bool" where
  gate_done: "raised c = None \<Longrightarrow> pending c = item # x \<Longrightarrow>
     apply_gate (counter c) item (store c) = (s', Inr u) \<Longrightarrow>
     step c (c\<lparr>counter := Suc (counter c), pending := x, store := s'\<rparr>)"
| gate_raised: "raised c = None \<Longrightarrow> pending c = item # x \<Longrightarrow>
     apply_gate (counter c) item (store c) = (s', Inl e) \<Longrightarrow>
     step c (c\<lparr>store := s', raised := Some e\<rparr>)"

text \<open>The configurations that a run from \<open>c\<close> passes through.\<close>

inductive reachable :: "machine \<Rightarrow> machine \<Rightarrow> bool" for c :: machine where
  reach_start: "reachable c c"
| reach_step: "reachable c c1 \<Longrightarrow> step c1 c2 \<Longrightarrow> reachable c c2"

text \<open>The step as a function: the next configuration, if there is one.\<close>

definition next_config :: "machine \<Rightarrow> machine option" where
  "next_config c =
     (case (raised c, pending c) of
        (None, item # x) \<Rightarrow>
          (case apply_gate (counter c) item (store c) of
             (s', Inr u) \<Rightarrow> Some (c\<lparr>counter := Suc (counter c), pending := x, store := s'\<rparr>)
           | (s', Inl e) \<Rightarrow> Some (c\<lparr>store := s', raised := Some e\<rparr>))
      | _ \<Rightarrow> None)"

text \<open>The invariant of the loop, for a run on a vector of \<open>n\<close> entries and \<open>k\<close> gates.\<close>

definition loop_inv :: "nat \<Rightarrow> nat \<Rightarrow> machine \<Rightarrow> bool" where
  "loop_inv n k c \<longleftrightarrow> length (store c) = n \<and> counter c + length (pending c) = k
     \<and> (raised c = None \<longrightarrow> all_in_range (store c))
     \<and> (raised c = Some IndexError \<longrightarrow> all_in_range (store c))"

section \<open>Single steps\<close>

lemma step_iff_next_config: "step c c' \<longleftrightarrow> next_config c = Some c'"
proof
  assume "step c c'"
  then show "next_config c = Some c'"
    by (induction rule: step.induct) (simp_all add: next_config_def)
next
  assume "next_config c = Some c'"
  then show "step c c'"
    by (auto simp: next_config_def split: option.splits list.splits prod.splits sum.splits
        intro: step.intros)
qed

lemma step_deterministic: "step c c1 \<Longrightarrow> step c c2 \<Longrightarrow> c1 = c2"
  by (simp add: step_iff_next_config)

lemma step_loop_inv:
  assumes "step c c'" and "loop_inv n k c"
  shows "loop_inv n k c'"
  using assms
proof (induction rule: step.induct)
  case (gate_done c item x s' u)
  have "length s' = length (store c)"
    using length_apply_gate [of "counter c" item "store c"] gate_done.hyps(3) by simp
  moreover have "all_in_range s'"
    using gate_done apply_gate_in_range [of "store c" "counter c" item s' u]
    by (simp add: loop_inv_def)
  ultimately show ?case using gate_done by (simp add: loop_inv_def)
next
  case (gate_raised c item x s' e)
  have "length s' = length (store c)"
    using length_apply_gate [of "counter c" item "store c"] gate_raised.hyps(3) by simp
  moreover have "all_in_range s'" if "e = IndexError"
    using apply_gate_failure_store [of "store c" "counter c" item s' e] gate_raised that
    by (auto simp: loop_inv_def)
  ultimately show ?case using gate_raised by (simp add: loop_inv_def)
qed

section \<open>Runs\<close>

lemma reachable_loop_inv: "reachable c c' \<Longrightarrow> loop_inv n k c \<Longrightarrow> loop_inv n k c'"
  by (induction rule: reachable.induct) (auto intro: step_loop_inv)

lemma loop_inv_start:
  "all_in_range s \<Longrightarrow> loop_inv (length s) (index + length x) (start index x s)"
  by (simp add: loop_inv_def start_def)

section \<open>Properties\<close>

text \<open>
  \<^bold>\<open>C30\<close> (invariant). In every configuration that a run from a vector within
  \<open>[-1, 1]\<close> passes through, the list has its original length, the counter plus the
  number of tuples still to come is the number of the last gate plus one, and the list is
  within \<open>[-1, 1]\<close> unless a range failure has been raised: a raising gate is the only
  one that leaves an entry outside the interval behind.
\<close>

theorem machine_invariant:
  assumes "reachable (start index x s) c" and "all_in_range s"
  shows "length (store c) = length s \<and> counter c + length (pending c) = index + length x
    \<and> (raised c = None \<or> raised c = Some IndexError \<longrightarrow> all_in_range (store c))"
  using reachable_loop_inv [OF assms(1) loop_inv_start [OF assms(2)]]
  by (auto simp: loop_inv_def)

theorem machine_invariant_witness:
  "reachable (start 0 [Item1 KL (1/2) 1, Item1 KR 0 7] [0, 0])
     \<lparr>counter = 1, pending = [Item1 KR 0 7], store = [0, 1/2], raised = None\<rparr>
   \<and> all_in_range [0, 0] \<and> all_in_range [0, 1/2]
   \<and> 1 + length [Item1 KR 0 7] = 0 + length [Item1 KL (1/2) 1, Item1 KR 0 7]"
proof -
  have "step (start 0 [Item1 KL (1/2) 1, Item1 KR 0 7] [0, 0])
      \<lparr>counter = 1, pending = [Item1 KR 0 7], store = [0, 1/2], raised = None\<rparr>"
    by (simp add: step_iff_next_config next_config_def start_def engine_eval)
  then have r: "reachable (start 0 [Item1 KL (1/2) 1, Item1 KR 0 7] [0, 0])
      \<lparr>counter = 1, pending = [Item1 KR 0 7], store = [0, 1/2], raised = None\<rparr>"
    by (blast intro: reachable.intros)
  have "all_in_range [0, 0]" by simp
  from machine_invariant [OF r this] r show ?thesis by simp
qed

end
