(* ===== verification/QPD_Refinement.thy ===== *)
theory QPD_Refinement
  imports QPD_Engine
begin

text \<open>
  The contract of the propagation engine as the specification states it, and the proof
  that the loop of \<open>process_list\<close> (\<^verbatim>\<open>src/s-QPDs.py\<close>, lines 101--123) implements
  it. The specification speaks of a vector indexed by mode number, of transfer rules
  that compute new values from the values before the gate, and of four typed outcomes.
  Here the vector is a partial map from mode numbers to reals, a gate is a function on
  such maps, and a failure is a value of the datatype \<open>failure\<close>. The abstraction reads a
  Python list as the map that sends mode \<open>m\<close> to entry \<open>m\<close> of the list, which is the
  indexing the source uses. The refinement theorem needs what the parser guarantees
  (mode numbers of at least 1), what the script guarantees (an initial vector within
  \<open>[-1, 1]\<close>), and that rotations name modes of the vector: the source does not check
  the mode of a rotation. The last hypothesis is necessary: a successful run of the
  source on a circuit with a rotation on an absent mode is a failed run of the
  specification.
\<close>

section \<open>The specification\<close>

type_synonym modevec = "int \<rightharpoonup> real"

datatype failure =
    RangeViolation nat kind "int list" modevec
  | UndefinedOperation nat int
  | AbsentMode

text \<open>The transfer rules of the one-mode gates; \<open>None\<close> where no rule is defined.\<close>

fun spec_rule :: "kind \<Rightarrow> real \<Rightarrow> real \<Rightarrow> real option" where
  "spec_rule KL eta s = Some (1 - eta * (1 - s))"
| "spec_rule KS r s = Some (if s \<ge> 0 then s / exp (2 * \<bar>r\<bar>) else s / exp (- 2 * \<bar>r\<bar>))"
| "spec_rule KC gamma s = (if s = 1 then Some (- 1) else None)"
| "spec_rule KR theta s = Some s"
| "spec_rule KB theta s = None"

text \<open>
  One token: the modes it names must exist, the new values are computed from the values
  before the gate, and every touched mode is validated.
\<close>

fun spec_apply :: "nat \<Rightarrow> item \<Rightarrow> modevec \<Rightarrow> failure + modevec" where
  "spec_apply index (Item1 k p m) v =
     (case v m of
        None \<Rightarrow> Inl AbsentMode
      | Some s \<Rightarrow>
          (case spec_rule k p s of
             None \<Rightarrow> Inl (UndefinedOperation index m)
           | Some s' \<Rightarrow>
               if in_range s' then Inr (v(m \<mapsto> s'))
               else Inl (RangeViolation index k [m] (v(m \<mapsto> s')))))"
| "spec_apply index (ItemB theta a b) v =
     (case (v a, v b) of
        (Some sa, Some sb) \<Rightarrow>
          (let mn = min sa sb; v' = v(a \<mapsto> mn, b \<mapsto> mn)
           in if in_range mn then Inr v' else Inl (RangeViolation index KB [a, b] v'))
      | _ \<Rightarrow> Inl AbsentMode)"

text \<open>The tokens in order, stopping at the first failure.\<close>

fun spec_run :: "nat \<Rightarrow> item list \<Rightarrow> modevec \<Rightarrow> failure + modevec" where
  "spec_run index [] v = Inr v"
| "spec_run index (item # x) v =
     (case spec_apply index item v of
        Inl f \<Rightarrow> Inl f
      | Inr v' \<Rightarrow> spec_run (Suc index) x v')"

section \<open>The abstraction\<close>

text \<open>A list as a vector of modes: mode \<open>m\<close> is entry \<open>m\<close>, counted from 0.\<close>

definition abs_vec :: "svec \<Rightarrow> modevec" where
  "abs_vec s = (\<lambda>m. if 0 \<le> m \<and> m < int (length s) then Some (s ! nat m) else None)"

text \<open>
  An exception of the source as a failure of the specification. The range failure of the
  cubic gate stands for the undefined operation; the modes of a range violation are
  those of the failing tuple, which the exception does not name in full.
\<close>

fun abs_error :: "item \<Rightarrow> error \<Rightarrow> failure" where
  "abs_error item (OutOfRange k m i snap) =
     (if k = KC then UndefinedOperation i m else RangeViolation i k (modes item) (abs_vec snap))"
| "abs_error item e = AbsentMode"

definition abs_step :: "item \<Rightarrow> svec \<times> unit result \<Rightarrow> failure + modevec" where
  "abs_step item out =
     (case out of (s', Inr u) \<Rightarrow> Inr (abs_vec s') | (s', Inl e) \<Rightarrow> Inl (abs_error item e))"

text \<open>The failing tuple of a run is found by the gate number in the exception.\<close>

fun failing_gate :: "nat \<Rightarrow> error \<Rightarrow> nat" where
  "failing_gate index (OutOfRange k m i snap) = i - index"
| "failing_gate index e = 0"

definition abs_run :: "nat \<Rightarrow> item list \<Rightarrow> svec \<times> unit result \<Rightarrow> failure + modevec" where
  "abs_run index x out =
     (case out of
        (s', Inr u) \<Rightarrow> Inr (abs_vec s')
      | (s', Inl e) \<Rightarrow> Inl (abs_error (x ! failing_gate index e) e))"

section \<open>Lemmas on the abstraction\<close>

lemma abs_vec_nonneg:
  "0 \<le> m \<Longrightarrow> abs_vec s m = (if m < int (length s) then Some (s ! nat m) else None)"
  by (simp add: abs_vec_def)

lemma abs_vec_update:
  "0 \<le> m \<Longrightarrow> m < int (length s) \<Longrightarrow> abs_vec (s[nat m := y]) = (abs_vec s)(m \<mapsto> y)"
  by (auto simp: abs_vec_def fun_eq_iff nth_list_update)

lemma abs_vec_inject: "abs_vec s = abs_vec t \<Longrightarrow> s = t"
proof -
  assume eq: "abs_vec s = abs_vec t"
  have len: "length s = length t"
  proof (rule ccontr)
    assume "length s \<noteq> length t"
    then consider "length s < length t" | "length t < length s" by linarith
    then show False
    proof cases
      case 1
      with eq [THEN fun_cong, of "int (length s)"] show False by (simp add: abs_vec_def)
    next
      case 2
      with eq [THEN fun_cong, of "int (length t)"] show False by (simp add: abs_vec_def)
    qed
  qed
  show "s = t"
  proof (rule nth_equalityI [OF len])
    fix i assume "i < length s"
    with eq [THEN fun_cong, of "int i"] len show "s ! i = t ! i" by (simp add: abs_vec_def)
  qed
qed

lemma spec_rule_transfer:
  "k \<in> {KS, KL, KC} \<Longrightarrow>
   spec_rule k p s = (if k = KC \<and> s \<noteq> 1 then None else Some (transfer k p s))"
  by (cases k) (auto simp: gate_defs)

section \<open>One gate\<close>

lemma apply_gate_refines:
  assumes wf: "wf_item item" and rng: "all_in_range s"
    and rot: "tag item = KR \<longrightarrow> modes_within (length s) item"
  shows "abs_step item (apply_gate index item s) = spec_apply index item (abs_vec s)"
proof (cases item)
  case (Item1 k p m)
  with wf have m: "1 \<le> m" and k: "k \<noteq> KB" by simp_all
  show ?thesis
  proof (cases "k = KR")
    case True
    with Item1 rot have lt: "m < int (length s)" by simp
    with m have "nat m < length s" by simp
    with rng have "in_range (s ! nat m)" by (simp add: list_all_length)
    with lt True Item1 m show ?thesis
      by (simp add: abs_step_def sreturn_def abs_vec_nonneg map_upd_triv)
  next
    case False
    with k have kk: "k \<in> {KS, KL, KC}" by (cases k) auto
    show ?thesis
    proof (cases "m < int (length s)")
      case True
      with m kk Item1 show ?thesis
        by (auto simp: abs_step_def apply_gate_update update_mode_eq abs_vec_nonneg
            abs_vec_update spec_rule_transfer s_cubic_def in_range_numerals)
    next
      case False
      with m kk Item1 show ?thesis
        by (simp add: abs_step_def apply_gate_update update_mode_eq abs_vec_nonneg)
    qed
  qed
next
  case (ItemB theta a b)
  with wf have a: "1 \<le> a" and b: "1 \<le> b" by simp_all
  show ?thesis
  proof (cases "a < int (length s) \<and> b < int (length s)")
    case True
    with a b ItemB show ?thesis
      by (simp add: abs_step_def beamsplit_eq abs_vec_nonneg Let_def abs_vec_update
          flip: list_update_swap)
  next
    case False
    with a b ItemB show ?thesis
      by (auto simp: abs_step_def beamsplit_eq abs_vec_nonneg)
  qed
qed

section \<open>The run\<close>

lemma abs_run_first:
  assumes "apply_gate index item s = (s1, Inl e)"
  shows "abs_run index (item # x) (s1, Inl e) = abs_step item (s1, Inl e)"
proof (cases e)
  case (OutOfRange k m i snap)
  with apply_gate_snapshot [of index item s s1 k m i snap] assms have "i = index" by simp
  with OutOfRange show ?thesis by (simp add: abs_run_def abs_step_def)
qed (simp_all add: abs_run_def abs_step_def)

lemma abs_run_rest:
  assumes "process_items (Suc index) x s1 = out"
  shows "abs_run index (item # x) out = abs_run (Suc index) x out"
proof (cases out)
  case (Pair s' r)
  show ?thesis
  proof (cases r)
    case (Inr u)
    with Pair show ?thesis by (simp add: abs_run_def)
  next
    case (Inl e)
    show ?thesis
    proof (cases e)
      case (OutOfRange k m i snap)
      from process_items_out_of_range [of "Suc index" x s1 s' k m i snap] assms Pair Inl OutOfRange
      have "Suc index \<le> i" by simp
      then have "(item # x) ! (i - index) = x ! (i - Suc index)"
        by (simp add: Suc_diff_le)
      with Pair Inl OutOfRange show ?thesis by (simp add: abs_run_def)
    qed (simp_all add: Pair Inl abs_run_def)
  qed
qed

lemma process_items_refines:
  assumes "list_all wf_item x" and "all_in_range s"
    and "\<forall>item \<in> set x. tag item = KR \<longrightarrow> modes_within (length s) item"
  shows "abs_run index x (process_items index x s) = spec_run index x (abs_vec s)"
  using assms
proof (induction x arbitrary: index s)
  case Nil
  show ?case by (simp add: abs_run_def sreturn_def)
next
  case (Cons item x)
  obtain s1 r where g: "apply_gate index item s = (s1, r)" by (cases "apply_gate index item s")
  have step: "abs_step item (s1, r) = spec_apply index item (abs_vec s)"
    using apply_gate_refines [of item s index] Cons.prems g by simp
  show ?case
  proof (cases r)
    case (Inl e)
    with g have "process_items index (item # x) s = (s1, Inl e)" by (simp add: sbind_def)
    moreover have "spec_run index (item # x) (abs_vec s) = abs_step item (s1, Inl e)"
      using step [symmetric] Inl by (simp add: abs_step_def)
    ultimately show ?thesis using abs_run_first [OF g [unfolded Inl]] by simp
  next
    case (Inr u)
    with g have run: "process_items index (item # x) s = process_items (Suc index) x s1"
      by (simp add: sbind_def)
    have len: "length s1 = length s" using length_apply_gate [of index item s] g by simp
    have "all_in_range s1" using apply_gate_in_range [of s index item s1 u] Cons.prems g Inr by simp
    with Cons.prems len
    have "abs_run (Suc index) x (process_items (Suc index) x s1) = spec_run (Suc index) x (abs_vec s1)"
      by (intro Cons.IH) simp_all
    moreover have "spec_run index (item # x) (abs_vec s) = spec_run (Suc index) x (abs_vec s1)"
      using step [symmetric] Inr by (simp add: abs_step_def)
    ultimately show ?thesis using run abs_run_rest [OF refl, of index item x s1] by simp
  qed
qed

section \<open>Rotations on modes the vector does not have\<close>

lemma spec_run_append:
  "spec_run index (x @ y) v =
     (case spec_run index x v of Inl f \<Rightarrow> Inl f | Inr v' \<Rightarrow> spec_run (index + length x) y v')"
  by (induction x arbitrary: index v) (simp_all split: sum.splits)

lemma spec_apply_absent_rotation:
  "int (length s) \<le> m \<Longrightarrow> spec_apply index (Item1 KR theta m) (abs_vec s) = Inl AbsentMode"
  by (simp add: abs_vec_def)

text \<open>
  A run of the source that succeeds, on a circuit with a rotation on a mode beyond the
  vector: up to the first such rotation the specification follows the source, and there
  it fails.
\<close>

lemma spec_run_absent_rotation:
  assumes wf: "list_all wf_item x" and rng: "all_in_range s"
    and run: "process_items index x s = (s', Inr ())"
    and bad: "\<exists>item \<in> set x. tag item = KR \<and> \<not> modes_within (length s) item"
  shows "spec_run index x (abs_vec s) = Inl AbsentMode"
proof -
  from split_list_first_prop [OF bad] obtain pre r post where x: "x = pre @ r # post"
    and r: "tag r = KR" "\<not> modes_within (length s) r"
    and pre: "\<forall>item \<in> set pre. \<not> (tag item = KR \<and> \<not> modes_within (length s) item)"
    by blast
  from wf x have wfr: "wf_item r" and wfpre: "list_all wf_item pre" by simp_all
  from r(1) wfr obtain theta m where rm: "r = Item1 KR theta m" and m: "1 \<le> m"
    by (cases r) auto
  with r(2) have far: "int (length s) \<le> m" by simp
  from run x obtain s1 where p1: "process_items index pre s = (s1, Inr ())"
    by (auto simp: process_items_append sbind_eq_Inr_iff)
  have len: "length s1 = length s" using length_process_items [of index pre s] p1 by simp
  from pre have "\<forall>item \<in> set pre. tag item = KR \<longrightarrow> modes_within (length s) item" by blast
  from process_items_refines [OF wfpre rng this, of index] p1
  have "spec_run index pre (abs_vec s) = Inr (abs_vec s1)" by (simp add: abs_run_def)
  then show ?thesis
    using far len by (simp add: x rm spec_run_append spec_apply_absent_rotation del: spec_apply.simps)
qed

section \<open>Properties\<close>

text \<open>
  \<^bold>\<open>C6\<close> (refinement). The loop implements the specification's engine. For a circuit
  of well-formed tuples whose rotations name modes of the vector, run on a vector within
  \<open>[-1, 1]\<close>, the outcome of \<open>process_items\<close> read through the abstraction is the
  outcome of the specification on the abstracted vector: the same final vector on
  success, and on failure the same kind of failure at the same gate with the same
  snapshot, where the source's range failure of a cubic gate stands for the
  specification's undefined operation.
\<close>

theorem engine_refines_spec:
  assumes "list_all wf_item x" and "all_in_range s"
    and "\<forall>item \<in> set x. tag item = KR \<longrightarrow> modes_within (length s) item"
  shows "abs_run index x (process_items index x s) = spec_run index x (abs_vec s)"
  using assms by (rule process_items_refines)

theorem engine_refines_spec_witness:
  "list_all wf_item [Item1 KR 1 2, Item1 KC 0 1, ItemB 7 1 2] \<and> all_in_range [0, 1, 0] \<and>
   process_items 0 [Item1 KR 1 2, Item1 KC 0 1, ItemB 7 1 2] [0, 1, 0] = ([0, - 1, - 1], Inr ()) \<and>
   spec_run 0 [Item1 KR 1 2, Item1 KC 0 1, ItemB 7 1 2] (abs_vec [0, 1, 0]) = Inr (abs_vec [0, - 1, - 1])"
proof -
  have run: "process_items 0 [Item1 KR 1 2, Item1 KC 0 1, ItemB 7 1 2] [0, 1, 0] = ([0, - 1, - 1], Inr ())"
    by (simp add: engine_eval)
  have "list_all wf_item [Item1 KR 1 2, Item1 KC 0 1, ItemB 7 1 2]" "all_in_range [0, 1, 0]"
    "\<forall>item \<in> set [Item1 KR 1 2, Item1 KC 0 1, ItemB 7 1 2]. tag item = KR \<longrightarrow> modes_within (length [0, 1, 0 :: real]) item"
    by simp_all
  from engine_refines_spec [OF this, of 0] run show ?thesis by (simp add: abs_run_def)
qed

text \<open>
  \<^bold>\<open>C14\<close> (safety). Where the source departs from the specification, and only
  there. For a circuit of well-formed tuples that the loop runs to its end on a vector
  within \<open>[-1, 1]\<close>, the specification's engine succeeds with the same vector exactly
  if every rotation names a mode of the vector; if one does not, the specification
  fails the run for the absent mode, while the source has ignored the mode of the
  rotation and applied every gate after it.
\<close>

theorem rotation_mode_unchecked:
  assumes "list_all wf_item x" and "all_in_range s" and "process_items index x s = (s', Inr ())"
  shows "spec_run index x (abs_vec s) =
    (if \<forall>item \<in> set x. tag item = KR \<longrightarrow> modes_within (length s) item
     then Inr (abs_vec s') else Inl AbsentMode)"
proof (cases "\<forall>item \<in> set x. tag item = KR \<longrightarrow> modes_within (length s) item")
  case True
  from process_items_refines [OF assms(1,2) True, of index] assms(3) True show ?thesis
    by (simp add: abs_run_def)
next
  case False
  then have "\<exists>item \<in> set x. tag item = KR \<and> \<not> modes_within (length s) item" by blast
  from spec_run_absent_rotation [OF assms this] False show ?thesis by simp
qed

theorem rotation_mode_unchecked_witness:
  "process_items 0 [Item1 KL 1 1, Item1 KR 1 9, Item1 KC 0 1] [0, 1] = ([0, - 1], Inr ())
   \<and> spec_run 0 [Item1 KL 1 1, Item1 KR 1 9, Item1 KC 0 1] (abs_vec [0, 1]) = Inl AbsentMode
   \<and> spec_run 0 [Item1 KL 1 1, Item1 KR 1 1, Item1 KC 0 1] (abs_vec [0, 1]) = Inr (abs_vec [0, - 1])"
proof -
  have run: "process_items 0 [Item1 KL 1 1, Item1 KR 1 9, Item1 KC 0 1] [0, 1] = ([0, - 1], Inr ())"
    "process_items 0 [Item1 KL 1 1, Item1 KR 1 1, Item1 KC 0 1] [0, 1] = ([0, - 1], Inr ())"
    by (simp_all add: engine_eval)
  have h: "list_all wf_item [Item1 KL 1 1, Item1 KR 1 9, Item1 KC 0 1]"
    "list_all wf_item [Item1 KL 1 1, Item1 KR 1 1, Item1 KC 0 1]" "all_in_range [0, 1]"
    by simp_all
  from rotation_mode_unchecked [OF h(1,3) run(1)] rotation_mode_unchecked [OF h(2,3) run(2)] run
  show ?thesis by simp
qed

end
