(* ===== verification/QPD_Regex.thy ===== *)
theory QPD_Regex
  imports QPD_Prelude
begin

text \<open>
  The fragment of Python's \<open>re\<close> that the patterns of \<^verbatim>\<open>src/s-QPDs.py\<close> are
  written in: literal characters, character classes (\<open>\d\<close>, \<open>[1-9]\<close>, \<open>[eE]\<close>,
  \<open>[+-]\<close>), concatenation, alternation \<open>|\<close>, the greedy quantifiers \<open>?\<close>, \<open>*\<close>
  and \<open>+\<close>, and capturing groups. \<open>bt\<close> is the backtracking matcher: it returns
  every way to match a prefix of the input, in the order in which a backtracking engine
  tries them (the left alternative first, the longer repetition first); \<open>re_match\<close>
  is \<open>pattern.match\<close>, the first of them.

  The second half relates the backtracking matcher to a matcher that never backtracks:
  \<open>gm\<close> decides every choice by looking at the next character. \<open>det r F\<close> is the
  condition under which the two agree when the rest of the pattern can only start with a
  character of \<open>F\<close> (theorem \<open>bt_det\<close>): the choices inside \<open>r\<close> are disjoint on
  their first characters, and an optional or repeated part cannot start with a character
  that may follow it.
\<close>


section \<open>Patterns and the backtracking matcher\<close>

datatype rx = Lit char | Cls "char list" | Seq rx rx | Alt rx rx | Opt rx | Star rx | Grp nat rx

text \<open>
  A match in progress: the groups captured so far (the latest capture of a group first)
  and the input that is left.
\<close>

type_synonym caps = "(nat \<times> string) list"
type_synonym mstate = "caps \<times> string"

fun bt :: "rx \<Rightarrow> mstate \<Rightarrow> mstate list" where
  "bt (Lit c) (g, s) = (case s of [] \<Rightarrow> [] | x # xs \<Rightarrow> if x = c then [(g, xs)] else [])"
| "bt (Cls cs) (g, s) = (case s of [] \<Rightarrow> [] | x # xs \<Rightarrow> if x \<in> set cs then [(g, xs)] else [])"
| "bt (Seq r1 r2) st = concat (map (bt r2) (bt r1 st))"
| "bt (Alt r1 r2) st = bt r1 st @ bt r2 st"
| "bt (Opt r) st = bt r st @ [st]"
| "bt (Star r) (g, s) =
     concat (map (\<lambda>st'. if length (snd st') < length s then bt (Star r) st' else []) (bt r (g, s)))
     @ [(g, s)]"
| "bt (Grp n r) (g, s) =
     map (\<lambda>st'. ((n, take (length s - length (snd st')) s) # fst st', snd st')) (bt r (g, s))"

text \<open>\<open>r+\<close> is \<open>rr*\<close>.\<close>

definition Plus :: "rx \<Rightarrow> rx" where
  "Plus r = Seq r (Star r)"

text \<open>\<open>pattern.match(s)\<close>: the first match in the engine's order, or \<open>None\<close>.\<close>

definition re_match :: "rx \<Rightarrow> string \<Rightarrow> mstate option" where
  "re_match r s = (case bt r ([], s) of [] \<Rightarrow> None | st # _ \<Rightarrow> Some st)"


section \<open>A matcher that does not backtrack\<close>

fun nullable :: "rx \<Rightarrow> bool" where
  "nullable (Lit c) = False"
| "nullable (Cls cs) = False"
| "nullable (Seq r1 r2) = (nullable r1 \<and> nullable r2)"
| "nullable (Alt r1 r2) = (nullable r1 \<or> nullable r2)"
| "nullable (Opt r) = True"
| "nullable (Star r) = True"
| "nullable (Grp n r) = nullable r"

fun firsts :: "rx \<Rightarrow> char list" where
  "firsts (Lit c) = [c]"
| "firsts (Cls cs) = cs"
| "firsts (Seq r1 r2) = firsts r1 @ (if nullable r1 then firsts r2 else [])"
| "firsts (Alt r1 r2) = firsts r1 @ firsts r2"
| "firsts (Opt r) = firsts r"
| "firsts (Star r) = firsts r"
| "firsts (Grp n r) = firsts r"

fun starts :: "char list \<Rightarrow> string \<Rightarrow> bool" where
  "starts F [] = False"
| "starts F (x # xs) = (x \<in> set F)"

definition disjoint :: "char list \<Rightarrow> char list \<Rightarrow> bool" where
  "disjoint A B = list_all (\<lambda>c. c \<notin> set B) A"

fun gm :: "rx \<Rightarrow> mstate \<Rightarrow> mstate option" where
  "gm (Lit c) (g, s) = (case s of [] \<Rightarrow> None | x # xs \<Rightarrow> if x = c then Some (g, xs) else None)"
| "gm (Cls cs) (g, s) = (case s of [] \<Rightarrow> None | x # xs \<Rightarrow> if x \<in> set cs then Some (g, xs) else None)"
| "gm (Seq r1 r2) st = (case gm r1 st of None \<Rightarrow> None | Some st' \<Rightarrow> gm r2 st')"
| "gm (Alt r1 r2) (g, s) = (if starts (firsts r1) s then gm r1 (g, s) else gm r2 (g, s))"
| "gm (Opt r) (g, s) = (if starts (firsts r) s then gm r (g, s) else Some (g, s))"
| "gm (Star r) (g, s) =
     (if starts (firsts r) s
      then (case gm r (g, s) of None \<Rightarrow> None
            | Some st' \<Rightarrow> if length (snd st') < length s then gm (Star r) st' else None)
      else Some (g, s))"
| "gm (Grp n r) (g, s) =
     (case gm r (g, s) of None \<Rightarrow> None
      | Some st' \<Rightarrow> Some ((n, take (length s - length (snd st')) s) # fst st', snd st'))"

fun det :: "rx \<Rightarrow> char list \<Rightarrow> bool" where
  "det (Lit c) F = True"
| "det (Cls cs) F = True"
| "det (Seq r1 r2) F = (det r1 (firsts r2 @ (if nullable r2 then F else [])) \<and> det r2 F)"
| "det (Alt r1 r2) F =
     (det r1 F \<and> det r2 F \<and> \<not> nullable r1 \<and> \<not> nullable r2 \<and> disjoint (firsts r1) (firsts r2))"
| "det (Opt r) F = (det r F \<and> \<not> nullable r \<and> disjoint (firsts r) F)"
| "det (Star r) F = (det r (firsts r @ F) \<and> \<not> nullable r \<and> disjoint (firsts r) F)"
| "det (Grp n r) F = det r F"

definition needs :: "(mstate \<Rightarrow> 'a list) \<Rightarrow> char list \<Rightarrow> bool" where
  "needs k F \<longleftrightarrow> (\<forall>g s. \<not> starts F s \<longrightarrow> k (g, s) = [])"

definition btk :: "rx \<Rightarrow> (mstate \<Rightarrow> 'a list) \<Rightarrow> mstate \<Rightarrow> 'a list" where
  "btk r k = (\<lambda>st. concat (map k (bt r st)))"

text \<open>The least number of characters that a match of a pattern consumes.\<close>

fun minlen :: "rx \<Rightarrow> nat" where
  "minlen (Lit c) = 1"
| "minlen (Cls cs) = 1"
| "minlen (Seq r1 r2) = minlen r1 + minlen r2"
| "minlen (Alt r1 r2) = min (minlen r1) (minlen r2)"
| "minlen (Opt r) = 0"
| "minlen (Star r) = 0"
| "minlen (Grp n r) = minlen r"

section \<open>Lemmas on the backtracking matcher\<close>

lemma starts_append [simp]: "starts (A @ B) s \<longleftrightarrow> starts A s \<or> starts B s"
  by (cases s) auto

lemma starts_Nil [simp]: "\<not> starts [] s"
  by (cases s) auto

lemma disjoint_starts: "disjoint A B \<Longrightarrow> starts A s \<Longrightarrow> \<not> starts B s"
  by (cases s) (auto simp: disjoint_def list_all_iff)

lemma bt_no_first:
  "\<not> starts (firsts r) s \<Longrightarrow>
     (\<not> nullable r \<longrightarrow> bt r (g, s) = []) \<and> (\<forall>st' \<in> set (bt r (g, s)). snd st' = s)"
proof (induction r arbitrary: g)
  case (Lit c)
  then show ?case by (cases s) auto
next
  case (Cls cs)
  then show ?case by (cases s) auto
next
  case (Seq r1 r2)
  show ?case
  proof (cases "nullable r1")
    case False
    with Seq show ?thesis by simp
  next
    case True
    with Seq.prems have n1: "\<not> starts (firsts r1) s" and n2: "\<not> starts (firsts r2) s" by simp_all
    have r1: "\<forall>st' \<in> set (bt r1 (g, s)). snd st' = s" using Seq.IH(1) [OF n1] by simp
    have r2: "(\<not> nullable r2 \<longrightarrow> bt r2 (g', s) = []) \<and> (\<forall>st' \<in> set (bt r2 (g', s)). snd st' = s)" for g'
      using Seq.IH(2) [OF n2] by simp
    have "\<forall>st1 \<in> set (bt r1 (g, s)). (\<not> nullable r2 \<longrightarrow> bt r2 st1 = []) \<and> (\<forall>st' \<in> set (bt r2 st1). snd st' = s)"
    proof
      fix st1 assume "st1 \<in> set (bt r1 (g, s))"
      with r1 have "st1 = (fst st1, s)" by (cases st1) auto
      then show "(\<not> nullable r2 \<longrightarrow> bt r2 st1 = []) \<and> (\<forall>st' \<in> set (bt r2 st1). snd st' = s)"
        using r2 [of "fst st1"] by simp
    qed
    then show ?thesis by (auto simp: True)
  qed
next
  case (Alt r1 r2)
  then show ?case by auto
next
  case (Opt r)
  then show ?case by auto
next
  case (Star r)
  then have "\<forall>st' \<in> set (bt r (g, s)). snd st' = s" by simp
  then have "map (\<lambda>st'. if length (snd st') < length s then bt (Star r) st' else []) (bt r (g, s))
      = map (\<lambda>st'. []) (bt r (g, s))"
    by (intro map_cong) auto
  then show ?case by simp
next
  case (Grp n r)
  then show ?case by auto
qed

lemma bt_shorter:
  "(g', s') \<in> set (bt r st) \<Longrightarrow>
     length s' \<le> length (snd st) \<and> (\<not> nullable r \<longrightarrow> length s' < length (snd st))"
proof (induction r st arbitrary: g' s' rule: bt.induct)
  case (1 c g s)
  then show ?case by (cases s) (auto split: if_splits)
next
  case (2 cs g s)
  then show ?case by (cases s) (auto split: if_splits)
next
  case (3 r1 r2 st)
  from "3.prems" obtain g1 s1 where st1: "(g1, s1) \<in> set (bt r1 st)"
    and st': "(g', s') \<in> set (bt r2 (g1, s1))"
    by auto
  from "3.IH"(1) [OF st1] "3.IH"(2) [OF st1 st'] show ?case by auto
next
  case (4 r1 r2 st)
  then show ?case by auto
next
  case (5 r st)
  then show ?case by auto
next
  case (6 r g s)
  from "6.prems" consider "(g', s') = (g, s)"
    | g1 s1 where "(g1, s1) \<in> set (bt r (g, s))" "length s1 < length s"
        "(g', s') \<in> set (bt (Star r) (g1, s1))"
    by (auto split: if_splits)
  then show ?case
  proof cases
    case 1
    then show ?thesis by simp
  next
    case 2
    from "6.IH"(2) [OF 2(1) _ 2(3)] 2(2) show ?thesis by simp
  qed
next
  case (7 n r g s)
  then show ?case by auto
qed


section \<open>Backtracking against prediction\<close>

lemma needsD: "needs k F \<Longrightarrow> \<not> starts F s \<Longrightarrow> k (g, s) = []"
  by (simp add: needs_def)

lemma concat_map_concat_map:
  "concat (map k (concat (map f xs))) = concat (map (\<lambda>x. concat (map k (f x))) xs)"
  by (induction xs) simp_all

lemma btk_simps:
  "btk (Seq r1 r2) k = btk r1 (btk r2 k)"
  "btk (Alt r1 r2) k st = btk r1 k st @ btk r2 k st"
  "btk (Opt r) k st = btk r k st @ k st"
  "btk (Grp n r) k (g, s) =
     btk r (\<lambda>st'. k ((n, take (length s - length (snd st')) s) # fst st', snd st')) (g, s)"
  by (simp_all add: btk_def fun_eq_iff concat_map_concat_map comp_def)

lemma btk_Star:
  "btk (Star r) k (g, s) =
     btk r (\<lambda>st'. if length (snd st') < length s then btk (Star r) k st' else []) (g, s) @ k (g, s)"
proof -
  have "concat (map k (concat (map (\<lambda>st'. if length (snd st') < length s then bt (Star r) st' else [])
            (bt r (g, s)))))
      = concat (map (\<lambda>st'. if length (snd st') < length s then concat (map k (bt (Star r) st')) else [])
            (bt r (g, s)))"
    by (simp add: concat_map_concat_map if_distrib [of "\<lambda>xs. concat (map k xs)"] cong: if_cong)
  then show ?thesis by (simp add: btk_def cong: if_cong)
qed

lemma btk_no_first: "\<not> starts (firsts r) s \<Longrightarrow> \<not> nullable r \<Longrightarrow> btk r k (g, s) = []"
  using bt_no_first [of r s g] by (simp add: btk_def)

lemma needs_btk:
  assumes "needs k F"
  shows "needs (btk r k) (firsts r @ (if nullable r then F else []))"
  unfolding needs_def
proof (intro allI impI)
  fix g s
  assume ns: "\<not> starts (firsts r @ (if nullable r then F else [])) s"
  then have nf: "\<not> starts (firsts r) s" by simp
  show "btk r k (g, s) = []"
  proof (cases "nullable r")
    case False
    with nf show ?thesis by (rule btk_no_first)
  next
    case True
    with ns have "\<not> starts F s" by simp
    then have "k (g', s) = []" for g' using assms by (rule needsD [rotated])
    moreover have "\<forall>st' \<in> set (bt r (g, s)). snd st' = s" using bt_no_first [OF nf] by simp
    ultimately have "\<forall>st' \<in> set (bt r (g, s)). k st' = []" by (metis prod.collapse)
    then show ?thesis by (simp add: btk_def)
  qed
qed

lemma bt_det:
  "det r F \<Longrightarrow> needs k F \<Longrightarrow> btk r k st = (case gm r st of None \<Rightarrow> [] | Some st' \<Rightarrow> k st')"
proof (induction r arbitrary: k F st)
  case (Lit c)
  then show ?case by (cases st; cases "snd st") (auto simp: btk_def)
next
  case (Cls cs)
  then show ?case by (cases st; cases "snd st") (auto simp: btk_def)
next
  case (Seq r1 r2)
  from Seq.prems have d1: "det r1 (firsts r2 @ (if nullable r2 then F else []))" and d2: "det r2 F"
    by simp_all
  have n1: "needs (btk r2 k) (firsts r2 @ (if nullable r2 then F else []))"
    using Seq.prems(2) by (rule needs_btk)
  show ?case
    by (simp add: btk_simps Seq.IH(1) [OF d1 n1] Seq.IH(2) [OF d2 Seq.prems(2)] split: option.splits)
next
  case (Alt r1 r2)
  obtain g s where st: "st = (g, s)" by (cases st)
  from Alt.prems have d: "det r1 F" "det r2 F" "\<not> nullable r1" "\<not> nullable r2"
    "disjoint (firsts r1) (firsts r2)" by simp_all
  show ?case
  proof (cases "starts (firsts r1) s")
    case True
    then have "\<not> starts (firsts r2) s" using d(5) by (simp add: disjoint_starts)
    then have "btk r2 k (g, s) = []" using d(4) by (rule btk_no_first)
    with True show ?thesis by (simp add: st btk_simps Alt.IH(1) [OF d(1) Alt.prems(2)])
  next
    case False
    then have "btk r1 k (g, s) = []" using d(3) by (rule btk_no_first)
    with False show ?thesis by (simp add: st btk_simps Alt.IH(2) [OF d(2) Alt.prems(2)])
  qed
next
  case (Opt r)
  obtain g s where st: "st = (g, s)" by (cases st)
  from Opt.prems have d: "det r F" "\<not> nullable r" "disjoint (firsts r) F" by simp_all
  show ?case
  proof (cases "starts (firsts r) s")
    case True
    then have "\<not> starts F s" using d(3) by (simp add: disjoint_starts)
    then have "k (g, s) = []" using Opt.prems(2) by (simp add: needsD)
    with True show ?thesis by (simp add: st btk_simps Opt.IH [OF d(1) Opt.prems(2)])
  next
    case False
    then have "btk r k (g, s) = []" using d(2) by (rule btk_no_first)
    with False show ?thesis by (simp add: st btk_simps)
  qed
next
  case (Star r)
  from Star.prems have d: "det r (firsts r @ F)" "\<not> nullable r" "disjoint (firsts r) F"
    by simp_all
  show ?case
  proof (induction "length (snd st)" arbitrary: st rule: less_induct)
    case less
    obtain g s where st: "st = (g, s)" by (cases st)
    let ?k = "\<lambda>st'. if length (snd st') < length s then btk (Star r) k st' else []"
    show ?case
    proof (cases "starts (firsts r) s")
      case False
      then have "btk r ?k (g, s) = []" using d(2) by (rule btk_no_first)
      with False show ?thesis by (simp add: st btk_Star)
    next
      case True
      then have "\<not> starts F s" using d(3) by (simp add: disjoint_starts)
      then have kz: "k (g, s) = []" using Star.prems(2) by (simp add: needsD)
      have nk: "needs ?k (firsts r @ F)"
        unfolding needs_def
      proof (intro allI impI)
        fix g' s' assume "\<not> starts (firsts r @ F) s'"
        then have a: "\<not> starts (firsts r) s'" and b: "\<not> starts F s'" by simp_all
        have "btk r k' (g', s') = []" for k' :: "mstate \<Rightarrow> 'a list"
          using a d(2) by (rule btk_no_first)
        moreover have "k (g', s') = []" using Star.prems(2) b by (simp add: needsD)
        ultimately have "btk (Star r) k (g', s') = []" by (simp add: btk_Star)
        then show "?k (g', s') = []" by simp
      qed
      have "btk (Star r) k st = btk r ?k (g, s)" by (simp add: st btk_Star kz)
      also have "\<dots> = (case gm r (g, s) of None \<Rightarrow> [] | Some st' \<Rightarrow> ?k st')"
        by (rule Star.IH [OF d(1) nk])
      also have "\<dots> = (case gm (Star r) (g, s) of None \<Rightarrow> [] | Some st' \<Rightarrow> k st')"
        using True less [of _ ] by (auto simp: st split: option.splits)
      finally show ?thesis by (simp add: st)
    qed
  qed
next
  case (Grp n r)
  obtain g s where st: "st = (g, s)" by (cases st)
  from Grp.prems have d: "det r F" by simp
  have nk: "needs (\<lambda>st'. k ((n, take (length s - length (snd st')) s) # fst st', snd st')) F"
    using Grp.prems(2) by (simp add: needs_def)
  show ?case by (simp add: st btk_simps Grp.IH [OF d nk] split: option.splits)
qed

lemma bt_minlen: "(g', s') \<in> set (bt r st) \<Longrightarrow> length s' + minlen r \<le> length (snd st)"
proof (induction r arbitrary: g' s' st)
  case (Lit c)
  then show ?case by (cases st; cases "snd st") (auto split: if_splits)
next
  case (Cls cs)
  then show ?case by (cases st; cases "snd st") (auto split: if_splits)
next
  case (Seq r1 r2)
  from Seq.prems obtain g1 s1 where "(g1, s1) \<in> set (bt r1 st)" "(g', s') \<in> set (bt r2 (g1, s1))"
    by auto
  from Seq.IH(1) [OF this(1)] Seq.IH(2) [OF this(2)] show ?case by simp
next
  case (Alt r1 r2)
  from Alt.prems consider "(g', s') \<in> set (bt r1 st)" | "(g', s') \<in> set (bt r2 st)" by auto
  then show ?case using Alt.IH by cases fastforce+
next
  case (Opt r)
  from bt_shorter [OF Opt.prems] show ?case by simp
next
  case (Star r)
  from bt_shorter [OF Star.prems] show ?case by simp
next
  case (Grp n r)
  then show ?case by (cases st) auto
qed

end
