(* ===== verification/QPD_Lang.thy ===== *)
theory QPD_Lang
  imports QPD_Regex
begin

text \<open>
  What the backtracking matcher can return, in terms of the words a pattern denotes.
  \<open>accepts r w\<close> is the usual meaning of a regular expression: \<open>w\<close> is one of the
  words of \<open>r\<close>. Every result of \<open>bt\<close> has consumed a word of the pattern, and a
  group without inner groups has captured exactly the word it consumed. This is what
  the parser of \<^verbatim>\<open>src/s-QPDs.py\<close> relies on when it hands \<open>m.group(n)\<close> to \<open>float\<close>
  and \<open>int\<close>.
\<close>

section \<open>The words of a pattern\<close>

inductive accepts :: "rx \<Rightarrow> string \<Rightarrow> bool" where
  acc_Lit: "accepts (Lit c) [c]"
| acc_Cls: "x \<in> set cs \<Longrightarrow> accepts (Cls cs) [x]"
| acc_Seq: "accepts r1 u \<Longrightarrow> accepts r2 v \<Longrightarrow> accepts (Seq r1 r2) (u @ v)"
| acc_AltL: "accepts r1 w \<Longrightarrow> accepts (Alt r1 r2) w"
| acc_AltR: "accepts r2 w \<Longrightarrow> accepts (Alt r1 r2) w"
| acc_OptNil: "accepts (Opt r) []"
| acc_Opt: "accepts r w \<Longrightarrow> accepts (Opt r) w"
| acc_StarNil: "accepts (Star r) []"
| acc_Star: "accepts r u \<Longrightarrow> accepts (Star r) v \<Longrightarrow> accepts (Star r) (u @ v)"
| acc_Grp: "accepts r w \<Longrightarrow> accepts (Grp n r) w"

inductive_simps accepts_Lit [simp]: "accepts (Lit c) w"
inductive_simps accepts_Cls [simp]: "accepts (Cls cs) w"
inductive_simps accepts_Seq: "accepts (Seq r1 r2) w"
inductive_simps accepts_Alt [simp]: "accepts (Alt r1 r2) w"
inductive_simps accepts_Opt: "accepts (Opt r) w"
inductive_simps accepts_Grp [simp]: "accepts (Grp n r) w"
inductive_cases accepts_StarE: "accepts (Star r) w"

text \<open>A pattern without capturing groups.\<close>

fun groupfree :: "rx \<Rightarrow> bool" where
  "groupfree (Lit c) = True"
| "groupfree (Cls cs) = True"
| "groupfree (Seq r1 r2) = (groupfree r1 \<and> groupfree r2)"
| "groupfree (Alt r1 r2) = (groupfree r1 \<and> groupfree r2)"
| "groupfree (Opt r) = groupfree r"
| "groupfree (Star r) = groupfree r"
| "groupfree (Grp n r) = False"

text \<open>The characters that occur in a pattern.\<close>

fun alphabet :: "rx \<Rightarrow> char list" where
  "alphabet (Lit c) = [c]"
| "alphabet (Cls cs) = cs"
| "alphabet (Seq r1 r2) = alphabet r1 @ alphabet r2"
| "alphabet (Alt r1 r2) = alphabet r1 @ alphabet r2"
| "alphabet (Opt r) = alphabet r"
| "alphabet (Star r) = alphabet r"
| "alphabet (Grp n r) = alphabet r"

lemma accepts_alphabet: "accepts r w \<Longrightarrow> set w \<subseteq> set (alphabet r)"
  by (induction rule: accepts.induct) auto

section \<open>Results of the matcher\<close>

lemma bt_accepts:
  "(g', s') \<in> set (bt r st) \<Longrightarrow> \<exists>w. snd st = w @ s' \<and> accepts r w"
proof (induction r st arbitrary: g' s' rule: bt.induct)
  case (1 c g s)
  then show ?case by (cases s) (auto split: if_splits)
next
  case (2 cs g s)
  then show ?case by (cases s) (auto split: if_splits)
next
  case (3 r1 r2 st)
  from "3.prems" obtain g1 s1 where st1: "(g1, s1) \<in> set (bt r1 st)"
    and st': "(g', s') \<in> set (bt r2 (g1, s1))"
    by auto
  from "3.IH"(1) [OF st1] obtain u where u: "snd st = u @ s1" "accepts r1 u" by auto
  from "3.IH"(2) [OF st1 st'] obtain v where v: "s1 = v @ s'" "accepts r2 v" by auto
  from u v show ?case by (auto intro: accepts.intros)
next
  case (4 r1 r2 st)
  then show ?case by fastforce
next
  case (5 r st)
  then show ?case by (fastforce simp: accepts_Opt)
next
  case (6 r g s)
  from "6.prems" consider "(g', s') = (g, s)"
    | g1 s1 where "(g1, s1) \<in> set (bt r (g, s))" "length s1 < length s"
        "(g', s') \<in> set (bt (Star r) (g1, s1))"
    by (auto split: if_splits)
  then show ?case
  proof cases
    case 1
    then show ?thesis by (auto intro: accepts.intros)
  next
    case 2
    from "6.IH"(1) [OF 2(1)] obtain u where u: "s = u @ s1" "accepts r u" by auto
    from "6.IH"(2) [OF 2(1) _ 2(3)] 2(2) obtain v where v: "s1 = v @ s'" "accepts (Star r) v"
      by auto
    from u v show ?thesis by (auto intro: accepts.intros)
  qed
next
  case (7 n r g s)
  then show ?case by auto
qed

lemma bt_groupfree: "groupfree r \<Longrightarrow> (g', s') \<in> set (bt r st) \<Longrightarrow> g' = fst st"
proof (induction r st arbitrary: g' s' rule: bt.induct)
  case (1 c g s)
  then show ?case by (cases s) (auto split: if_splits)
next
  case (2 cs g s)
  then show ?case by (cases s) (auto split: if_splits)
next
  case (3 r1 r2 st)
  from "3.prems" obtain g1 s1 where st1: "(g1, s1) \<in> set (bt r1 st)"
    and st': "(g', s') \<in> set (bt r2 (g1, s1))"
    by auto
  from "3.IH"(1) [OF _ st1] "3.IH"(2) [OF st1 _ st'] "3.prems"(1) show ?case by simp
next
  case (4 r1 r2 st)
  then show ?case by auto
next
  case (5 r st)
  then show ?case by auto
next
  case (6 r g s)
  from "6.prems" consider "(g', s') = (g, s)"
    | g1 s1 where "(g1, s1) \<in> set (bt r (g, s))" "length s1 < length s"
        "(g', s') \<in> set (bt (Star r) (g1, s1))"
    by (auto split: if_splits)
  then show ?case
  proof cases
    case 1
    then show ?thesis by simp
  next
    case 2
    from "6.IH"(1) [OF _ 2(1)] "6.IH"(2) [OF 2(1) _ _ 2(3)] 2(2) "6.prems"(1)
    show ?thesis by simp
  qed
next
  case (7 n r g s)
  then show ?case by simp
qed

text \<open>Membership in the results of the composite patterns, one constructor at a time.\<close>

lemma in_bt_Lit: "(g', s') \<in> set (bt (Lit c) (g, s)) \<longleftrightarrow> s = c # s' \<and> g' = g"
  by (cases s) auto

lemma in_bt_Seq:
  "(g', s') \<in> set (bt (Seq r1 r2) st) \<longleftrightarrow> (\<exists>st1 \<in> set (bt r1 st). (g', s') \<in> set (bt r2 st1))"
  by auto

lemma in_bt_Grp:
  assumes "groupfree r" and "(g', s') \<in> set (bt (Grp n r) (g, s))"
  shows "\<exists>w. g' = (n, w) # g \<and> s = w @ s' \<and> accepts r w"
proof -
  from assms(2) obtain g1 where in1: "(g1, s') \<in> set (bt r (g, s))"
    and g': "g' = (n, take (length s - length s') s) # g1"
    by auto
  from bt_groupfree [OF assms(1) in1] have "g1 = g" by simp
  moreover from bt_accepts [OF in1] obtain w where "s = w @ s'" "accepts r w" by auto
  ultimately show ?thesis using g' by auto
qed

lemma re_match_in_bt: "re_match r s = Some st \<Longrightarrow> st \<in> set (bt r ([], s))"
  by (auto simp: re_match_def split: list.splits)

section \<open>Words are matched\<close>

text \<open>
  The converse for the predictive matcher: it consumes a word of a deterministic
  pattern when what follows the word is nothing, or starts with a character that may
  follow the pattern.
\<close>

lemma starts_iff: "starts F s \<longleftrightarrow> s \<noteq> [] \<and> hd s \<in> set F"
  by (cases s) auto

lemma accepts_Nil_nullable:
  assumes "accepts r w" and "w = []"
  shows "nullable r"
  using assms by (induction rule: accepts.induct) auto

lemma accepts_hd_firsts:
  assumes "accepts r w" and "w \<noteq> []"
  shows "hd w \<in> set (firsts r)"
  using assms
proof (induction rule: accepts.induct)
  case (acc_Seq r1 u r2 v)
  then show ?case by (cases "u = []") (auto dest: accepts_Nil_nullable)
next
  case (acc_Star r u v)
  then show ?case by (cases "u = []") auto
qed auto

lemma accepts_starts:
  "accepts r w \<Longrightarrow> \<not> nullable r \<Longrightarrow> starts (firsts r) (w @ rest)"
  using accepts_Nil_nullable [of r w] accepts_hd_firsts [of r w]
  by (cases "w = []") (auto simp: starts_iff)

lemma follow_starts:
  "rest = [] \<or> hd rest \<in> set F \<Longrightarrow> disjoint A F \<Longrightarrow> \<not> starts A rest"
  by (cases rest) (auto simp: disjoint_def list_all_iff)

lemma gm_complete:
  assumes "accepts r w" and "groupfree r" and "det r F" and "rest = [] \<or> hd rest \<in> set F"
  shows "gm r (g, w @ rest) = Some (g, rest)"
  using assms
proof (induction arbitrary: F rest g rule: accepts.induct)
  case (acc_Lit c)
  show ?case by simp
next
  case (acc_Cls x cs)
  then show ?case by simp
next
  case (acc_Seq r1 u r2 v)
  let ?F1 = "firsts r2 @ (if nullable r2 then F else [])"
  have "v @ rest = [] \<or> hd (v @ rest) \<in> set ?F1"
  proof (cases "v = []")
    case True
    with acc_Seq.hyps(2) have "nullable r2" by (rule accepts_Nil_nullable)
    with True acc_Seq.prems(3) show ?thesis by auto
  next
    case False
    with accepts_hd_firsts [OF acc_Seq.hyps(2)] show ?thesis by simp
  qed
  with acc_Seq.IH(1) [of ?F1 "v @ rest" g] acc_Seq.prems
  have "gm r1 (g, u @ v @ rest) = Some (g, v @ rest)" by simp
  moreover from acc_Seq.IH(2) [of F rest g] acc_Seq.prems
  have "gm r2 (g, v @ rest) = Some (g, rest)" by simp
  ultimately show ?case by simp
next
  case (acc_AltL r1 w r2)
  then have "starts (firsts r1) (w @ rest)" by (intro accepts_starts) simp_all
  with acc_AltL.IH [of F rest g] acc_AltL.prems show ?case by simp
next
  case (acc_AltR r2 w r1)
  then have "starts (firsts r2) (w @ rest)" by (intro accepts_starts) simp_all
  with acc_AltR.prems have "\<not> starts (firsts r1) (w @ rest)"
    by (auto dest: disjoint_starts)
  with acc_AltR.IH [of F rest g] acc_AltR.prems show ?case by simp
next
  case (acc_OptNil r)
  then have "\<not> starts (firsts r) rest" by (intro follow_starts [of rest F]) simp_all
  then show ?case by simp
next
  case (acc_Opt r w)
  then have "starts (firsts r) (w @ rest)" by (intro accepts_starts) simp_all
  with acc_Opt.IH [of F rest g] acc_Opt.prems show ?case by simp
next
  case (acc_StarNil r)
  then have "\<not> starts (firsts r) rest" by (intro follow_starts [of rest F]) simp_all
  then show ?case by simp
next
  case (acc_Star r u v)
  from acc_Star.prems have nn: "\<not> nullable r" by simp
  with acc_Star.hyps(1) have u: "u \<noteq> []" by (auto dest: accepts_Nil_nullable)
  from acc_Star.hyps(1) nn have st: "starts (firsts r) (u @ v @ rest)" by (rule accepts_starts)
  have "v @ rest = [] \<or> hd (v @ rest) \<in> set (firsts r @ F)"
  proof (cases "v = []")
    case True
    with acc_Star.prems(3) show ?thesis by auto
  next
    case False
    with accepts_hd_firsts [OF acc_Star.hyps(2)] show ?thesis by simp
  qed
  with acc_Star.IH(1) [of "firsts r @ F" "v @ rest" g] acc_Star.prems
  have 1: "gm r (g, u @ v @ rest) = Some (g, v @ rest)" by simp
  from acc_Star.IH(2) [of F rest g] acc_Star.prems
  have 2: "gm (Star r) (g, v @ rest) = Some (g, rest)" by simp
  from st 1 2 u show ?case by simp
next
  case (acc_Grp r w n)
  then show ?case by simp
qed

lemma gm_Grp_complete:
  assumes "accepts r w" and "groupfree r" and "det r F" and "rest = [] \<or> hd rest \<in> set F"
  shows "gm (Grp n r) (g, w @ rest) = Some ((n, w) # g, rest)"
  using gm_complete [OF assms, of g] by simp

end
