(* ===== verification/QPD_Patterns.thy ===== *)
theory QPD_Patterns
  imports QPD_Regex
begin

text \<open>
  The regular expressions of \<^verbatim>\<open>src/s-QPDs.py\<close> (lines 5--11), written in the
  pattern language of \<open>QPD_Regex\<close>: \<open>REAL\<close> and \<open>NAT\<close> are the two fragments
  \<open>_REAL\<close> and \<open>_NAT\<close>, and \<open>RE_S\<close>, \<open>RE_R\<close>, \<open>RE_C\<close>, \<open>RE_L\<close>, \<open>RE_B\<close> the
  five compiled patterns, with their capturing groups numbered as Python numbers them.
  Strings are lists of characters with code points below 256; on these \<open>\d\<close> is
  \<open>[0-9]\<close>.

  The lemmas show that on these five patterns the backtracking match of Python is the
  match of the predictive matcher \<open>gm\<close>: every pattern but for its last group is
  deterministic in the sense of \<open>det\<close>, and the last group is a character class
  followed by a starred class, whose first backtracking result is the longest one.
\<close>

section \<open>The patterns of the source\<close>

definition digit :: rx where
  "digit = Cls ''0123456789''"

definition REAL :: rx where
  "REAL = Seq (Alt (Seq (Plus digit) (Opt (Seq (Lit CHR ''.'') (Star digit))))
                   (Seq (Lit CHR ''.'') (Plus digit)))
              (Opt (Seq (Cls ''eE'') (Seq (Opt (Cls ''+-'')) (Plus digit))))"

definition NAT :: rx where
  "NAT = Seq (Cls ''123456789'') (Star digit)"

text \<open>
  The patterns for \<open>S\<close>, \<open>R\<close>, \<open>C\<close> and \<open>L\<close> differ in their first letter only:
  \<open>c([+-]?REAL),(NAT)\<close>.
\<close>

definition one_mode :: "char \<Rightarrow> rx" where
  "one_mode c = Seq (Lit c) (Seq (Grp 1 (Seq (Opt (Cls ''+-'')) REAL))
                  (Seq (Lit CHR '','') (Grp 2 NAT)))"

definition RE_S :: rx where "RE_S = one_mode CHR ''S''"
definition RE_R :: rx where "RE_R = one_mode CHR ''R''"
definition RE_C :: rx where "RE_C = one_mode CHR ''C''"
definition RE_L :: rx where "RE_L = one_mode CHR ''L''"

definition RE_B :: rx where
  "RE_B = Seq (Lit CHR ''B'') (Seq (Grp 1 (Seq (Opt (Cls ''+-'')) REAL))
            (Seq (Lit CHR '','') (Seq (Grp 2 NAT) (Seq (Lit CHR '','') (Grp 3 NAT)))))"

lemmas pattern_defs = RE_S_def RE_R_def RE_C_def RE_L_def RE_B_def one_mode_def
  REAL_def NAT_def digit_def Plus_def

section \<open>The last group of a pattern\<close>

text \<open>The first element of a list of results, if there is one.\<close>

definition first_of :: "'a list \<Rightarrow> 'a option" where
  "first_of xs = (case xs of [] \<Rightarrow> None | x # _ \<Rightarrow> Some x)"

lemma re_match_first_of: "re_match r s = first_of (bt r ([], s))"
  by (simp add: re_match_def first_of_def)

lemma first_of_simps [simp]: "first_of [] = None" "first_of (x # xs) = Some x"
  by (simp_all add: first_of_def)

lemma first_of_append: "first_of (xs @ ys) = (case first_of xs of None \<Rightarrow> first_of ys | Some x \<Rightarrow> Some x)"
  by (cases xs) simp_all

lemma bt_Star_Cls_Cons:
  "bt (Star (Cls D)) (g, x # xs) =
     (if x \<in> set D then bt (Star (Cls D)) (g, xs) @ [(g, x # xs)] else [(g, x # xs)])"
  by simp

lemma bt_Star_Cls: "\<exists>rest. bt (Star (Cls D)) (g, s) = (g, dropWhile (\<lambda>c. c \<in> set D) s) # rest"
proof (induction s)
  case Nil
  show ?case by simp
next
  case (Cons x xs)
  then show ?case by (auto simp: bt_Star_Cls_Cons simp del: bt.simps(6))
qed

lemma gm_Star_Cls: "gm (Star (Cls D)) (g, s) = Some (g, dropWhile (\<lambda>c. c \<in> set D) s)"
  by (induction s) auto

lemma first_of_bt_last_group:
  "first_of (bt (Grp n (Seq (Cls A) (Star (Cls D)))) st) = gm (Grp n (Seq (Cls A) (Star (Cls D)))) st"
proof -
  obtain g s where st: "st = (g, s)" by (cases st)
  show ?thesis
  proof (cases s)
    case Nil
    with st show ?thesis by simp
  next
    case (Cons x xs)
    obtain rest where "bt (Star (Cls D)) (g, xs) = (g, dropWhile (\<lambda>c. c \<in> set D) xs) # rest"
      using bt_Star_Cls by blast
    with st Cons show ?thesis by (simp add: gm_Star_Cls del: bt.simps(6) gm.simps(6))
  qed
qed

section \<open>Backtracking is prediction on the five patterns\<close>

lemma needs_bt: "\<not> nullable r \<Longrightarrow> needs (bt r) (firsts r)"
  using bt_no_first by (auto simp: needs_def)

lemma first_of_split:
  assumes "det p (firsts t)" and "\<not> nullable t" and "\<And>st. first_of (bt t st) = gm t st"
  shows "first_of (btk p (bt t) st) = (case gm p st of None \<Rightarrow> None | Some st' \<Rightarrow> gm t st')"
  using bt_det [OF assms(1) needs_bt [OF assms(2)], of st] assms(3)
  by (simp split: option.splits)

lemma bt_Seq_btk: "bt (Seq a b) = btk a (bt b)"
  by (simp add: btk_def fun_eq_iff)

lemma bt_split4: "bt (Seq a (Seq b (Seq c d))) st = btk (Seq a (Seq b c)) (bt d) st"
  by (simp only: bt_Seq_btk btk_simps(1))

lemma bt_split6:
  "bt (Seq a (Seq b (Seq c (Seq d (Seq e f))))) st = btk (Seq a (Seq b (Seq c (Seq d e)))) (bt f) st"
  by (simp only: bt_Seq_btk btk_simps(1))

lemma re_match_one_mode: "re_match (one_mode c) s = gm (one_mode c) ([], s)"
proof -
  let ?p = "Seq (Lit c) (Seq (Grp 1 (Seq (Opt (Cls ''+-'')) REAL)) (Lit CHR '',''))"
  have d: "det ?p (firsts (Grp 2 NAT))"
    by (simp add: pattern_defs disjoint_def)
  have "re_match (one_mode c) s = first_of (btk ?p (bt (Grp 2 NAT)) ([], s))"
    by (simp only: re_match_first_of one_mode_def bt_split4)
  also have "\<dots> = (case gm ?p ([], s) of None \<Rightarrow> None | Some st' \<Rightarrow> gm (Grp 2 NAT) st')"
    using d by (rule first_of_split) (simp_all add: NAT_def digit_def first_of_bt_last_group)
  also have "\<dots> = gm (one_mode c) ([], s)"
    by (simp add: one_mode_def split: option.splits)
  finally show ?thesis .
qed

lemma re_match_RE_B: "re_match RE_B s = gm RE_B ([], s)"
proof -
  let ?p = "Seq (Lit CHR ''B'') (Seq (Grp 1 (Seq (Opt (Cls ''+-'')) REAL))
            (Seq (Lit CHR '','') (Seq (Grp 2 NAT) (Lit CHR '',''))))"
  have d: "det ?p (firsts (Grp 3 NAT))"
    by (simp add: pattern_defs disjoint_def)
  have "re_match RE_B s = first_of (btk ?p (bt (Grp 3 NAT)) ([], s))"
    by (simp only: re_match_first_of RE_B_def bt_split6)
  also have "\<dots> = (case gm ?p ([], s) of None \<Rightarrow> None | Some st' \<Rightarrow> gm (Grp 3 NAT) st')"
    using d by (rule first_of_split) (simp_all add: NAT_def digit_def first_of_bt_last_group)
  also have "\<dots> = gm RE_B ([], s)"
    by (simp add: RE_B_def split: option.splits)
  finally show ?thesis .
qed

section \<open>Properties\<close>

text \<open>
  \<^bold>\<open>C4\<close> (equivalence). On the five patterns of the source, matching with
  backtracking and matching by prediction are the same function: whenever Python's
  \<open>match\<close> finds a match, it is the one that a scanner finds which reads the input
  once from left to right, decides every option, alternative and repetition by the next
  character, and never revisits a decision; and where that scanner is stuck, no amount
  of backtracking finds a match.
\<close>

theorem patterns_deterministic:
  "re_match RE_S s = gm RE_S ([], s) \<and> re_match RE_R s = gm RE_R ([], s) \<and>
   re_match RE_C s = gm RE_C ([], s) \<and> re_match RE_L s = gm RE_L ([], s) \<and>
   re_match RE_B s = gm RE_B ([], s)"
  by (simp add: RE_S_def RE_R_def RE_C_def RE_L_def re_match_one_mode re_match_RE_B)

end
