(* ===== verification/QPD_Numerals.thy ===== *)
theory QPD_Numerals
  imports QPD_Prelude
begin

text \<open>
  The numeric conversions \<open>_to_real\<close> and \<open>_to_nat\<close> of \<^verbatim>\<open>src/s-QPDs.py\<close>
  (lines 13--26) and the fragment of Python's \<open>float\<close> and \<open>int\<close> they rest on.
  \<open>py_float\<close> reads a decimal literal (an optional sign, digits with an optional
  fraction or a fraction alone, an optional exponent) as the real number it denotes;
  \<open>py_int\<close> reads an optionally signed string of digits. Both return \<open>None\<close> where
  the string is not of that form. Python accepts more (surrounding whitespace,
  underscores between digits, \<open>inf\<close>, \<open>nan\<close>), and it rounds to a double; neither
  happens to a string that the patterns of the parser have matched, apart from the
  rounding, which the model leaves out. \<open>py_int\<close> has no limit on the number of
  digits; Python 3.11 and later refuse more than 4300 digits by default. The theory
  \<open>QPD_Conversions\<close> has the conversions on arbitrary strings and compares them with
  these.
\<close>

section \<open>Decimal digits\<close>

definition is_digit :: "char \<Rightarrow> bool" where
  "is_digit c \<longleftrightarrow> c \<in> set ''0123456789''"

definition digit_val :: "char \<Rightarrow> nat" where
  "digit_val c = of_char c - 48"

definition nat_of_digits :: "string \<Rightarrow> nat" where
  "nat_of_digits ds = foldl (\<lambda>n c. 10 * n + digit_val c) 0 ds"

text \<open>An optional leading sign and what follows it.\<close>

fun split_sign :: "string \<Rightarrow> int \<times> string" where
  "split_sign [] = (1, [])"
| "split_sign (c # cs) =
     (if c = CHR ''-'' then (- 1, cs) else if c = CHR ''+'' then (1, cs) else (1, c # cs))"

definition pow10 :: "int \<Rightarrow> real" where
  "pow10 e = (if 0 \<le> e then 10 ^ nat e else 1 / 10 ^ nat (- e))"

section \<open>The conversions of Python\<close>

definition py_int :: "string \<Rightarrow> int option" where
  "py_int s =
     (let (sg, ds) = split_sign s
      in if ds \<noteq> [] \<and> list_all is_digit ds then Some (sg * int (nat_of_digits ds)) else None)"

definition py_float :: "string \<Rightarrow> real option" where
  "py_float s =
     (let (sg, s1) = split_sign s;
          ip = takeWhile is_digit s1;
          s2 = dropWhile is_digit s1;
          (fp, s3) = (case s2 of [] \<Rightarrow> ([], [])
                      | c # r \<Rightarrow> if c = CHR ''.'' then (takeWhile is_digit r, dropWhile is_digit r)
                                else ([], s2));
          mant = real (nat_of_digits ip) + real (nat_of_digits fp) / 10 ^ length fp
      in if ip = [] \<and> fp = [] then None
         else case s3 of
             [] \<Rightarrow> Some (of_int sg * mant)
           | c # r \<Rightarrow>
               if c \<in> set ''eE'' then
                 (let (esg, ds) = split_sign r
                  in if ds \<noteq> [] \<and> list_all is_digit ds
                     then Some (of_int sg * mant * pow10 (esg * int (nat_of_digits ds)))
                     else None)
               else None)"

section \<open>The conversions of the source\<close>

text \<open>
  \<open>_to_real\<close> and \<open>_to_nat\<close> turn the \<open>ValueError\<close> of the conversion into their
  own, and \<open>_to_nat\<close> refuses a value below 1.
\<close>

definition to_real :: "string \<Rightarrow> real result" where
  "to_real s = (case py_float s of None \<Rightarrow> Inl (InvalidReal s) | Some v \<Rightarrow> Inr v)"

definition to_nat :: "string \<Rightarrow> int result" where
  "to_nat s =
     (case py_int s of None \<Rightarrow> Inl (InvalidNat s)
      | Some v \<Rightarrow> if v < 1 then Inl (NatTooSmall v) else Inr v)"

lemmas numeral_eval = to_real_def to_nat_def py_float_def py_int_def pow10_def
  nat_of_digits_def digit_val_def is_digit_def Let_def

end
