(* ===== verification/QPD_Lexical.thy ===== *)
theory QPD_Lexical
  imports QPD_Lang QPD_Patterns QPD_Numerals
begin

text \<open>
  The words of the numeric sub-patterns \<open>_NAT\<close> and \<open>[+-]?_REAL\<close> of
  \<^verbatim>\<open>src/s-QPDs.py\<close> (lines 5--6) and what \<open>int\<close> and \<open>float\<close> make of them: every
  word of \<open>_NAT\<close> converts to an integer of at least 1, and every word of
  \<open>[+-]?_REAL\<close> converts to a number. The \<open>except\<close> branches of \<open>_to_real\<close> and
  \<open>_to_nat\<close> and the test \<open>v < 1\<close> therefore never fire on a captured group.
\<close>

section \<open>Runs of digits\<close>

text \<open>The signed real of the token patterns, \<open>[+-]?_REAL\<close>.\<close>

definition SREAL :: rx where
  "SREAL = Seq (Opt (Cls ''+-'')) REAL"

text \<open>The exponent part of a real, or nothing.\<close>

definition exp_tail :: "string \<Rightarrow> bool" where
  "exp_tail ex \<longleftrightarrow> ex = [] \<or>
     (\<exists>c sg ed. ex = c # sg @ ed \<and> c \<in> set ''eE'' \<and> sg \<in> {[], ''+'', ''-''}
        \<and> ed \<noteq> [] \<and> list_all is_digit ed)"

lemma accepts_Star_Cls: "accepts (Star (Cls cs)) w \<longleftrightarrow> set w \<subseteq> set cs"
proof
  have "accepts r w \<Longrightarrow> r = Star (Cls cs) \<Longrightarrow> set w \<subseteq> set cs" for r
    by (induction rule: accepts.induct) auto
  then show "accepts (Star (Cls cs)) w \<Longrightarrow> set w \<subseteq> set cs" by simp
next
  show "set w \<subseteq> set cs \<Longrightarrow> accepts (Star (Cls cs)) w"
  proof (induction w)
    case Nil
    show ?case by (rule acc_StarNil)
  next
    case (Cons x w)
    then have "accepts (Cls cs) [x]" "accepts (Star (Cls cs)) w" by simp_all
    from acc_Star [OF this] show ?case by simp
  qed
qed

lemma accepts_Seq_Cls:
  "accepts (Seq (Cls cs) r) w \<longleftrightarrow> (\<exists>x v. w = x # v \<and> x \<in> set cs \<and> accepts r v)"
proof
  assume "accepts (Seq (Cls cs) r) w"
  then obtain u v where "w = u @ v" "accepts (Cls cs) u" "accepts r v"
    by (auto simp: accepts_Seq)
  then show "\<exists>x v. w = x # v \<and> x \<in> set cs \<and> accepts r v" by auto
next
  assume "\<exists>x v. w = x # v \<and> x \<in> set cs \<and> accepts r v"
  then obtain x v where w: "w = [x] @ v" and "accepts (Cls cs) [x]" "accepts r v" by auto
  from acc_Seq [OF this(2,3)] w show "accepts (Seq (Cls cs) r) w" by simp
qed

lemma accepts_Seq_Lit:
  "accepts (Seq (Lit c) r) w \<longleftrightarrow> (\<exists>v. w = c # v \<and> accepts r v)"
proof
  assume "accepts (Seq (Lit c) r) w"
  then obtain u v where "w = u @ v" "accepts (Lit c) u" "accepts r v"
    by (auto simp: accepts_Seq)
  then show "\<exists>v. w = c # v \<and> accepts r v" by auto
next
  assume "\<exists>v. w = c # v \<and> accepts r v"
  then obtain v where w: "w = [c] @ v" and "accepts (Lit c) [c]" "accepts r v" by auto
  from acc_Seq [OF this(2,3)] w show "accepts (Seq (Lit c) r) w" by simp
qed

lemma accepts_Plus_Cls: "accepts (Plus (Cls cs)) w \<longleftrightarrow> w \<noteq> [] \<and> set w \<subseteq> set cs"
  by (cases w) (simp_all add: Plus_def accepts_Seq_Cls accepts_Star_Cls)

lemma is_digit_iff: "list_all is_digit w \<longleftrightarrow> set w \<subseteq> set ''0123456789''"
  by (simp only: list_all_iff is_digit_def subset_iff Ball_def)

lemma accepts_digits:
  "accepts (Star digit) w \<longleftrightarrow> list_all is_digit w"
  "accepts (Plus digit) w \<longleftrightarrow> w \<noteq> [] \<and> list_all is_digit w"
  by (simp_all only: digit_def accepts_Star_Cls accepts_Plus_Cls is_digit_iff)

lemma span_digits:
  assumes "list_all is_digit ds" and "t = [] \<or> \<not> is_digit (hd t)"
  shows "takeWhile is_digit (ds @ t) = ds" and "dropWhile is_digit (ds @ t) = t"
  using assms by (induction ds) (cases t; simp)+

section \<open>Natural numbers\<close>

lemma accepts_NAT:
  "accepts NAT w \<longleftrightarrow> (\<exists>d ds. w = d # ds \<and> d \<in> set ''123456789'' \<and> list_all is_digit ds)"
  by (simp only: NAT_def accepts_Seq_Cls accepts_digits)

lemma foldl_digits:
  "foldl (\<lambda>n c. 10 * n + digit_val c) a ds = a * 10 ^ length ds + nat_of_digits ds"
proof (induction ds arbitrary: a)
  case Nil
  show ?case by (simp add: nat_of_digits_def)
next
  case (Cons d ds)
  have "foldl (\<lambda>n c. 10 * n + digit_val c) a (d # ds)
      = (10 * a + digit_val d) * 10 ^ length ds + nat_of_digits ds"
    by (simp add: Cons.IH)
  moreover have "nat_of_digits (d # ds) = digit_val d * 10 ^ length ds + nat_of_digits ds"
    using Cons.IH [of "digit_val d"] by (simp add: nat_of_digits_def)
  ultimately show ?case by (simp add: algebra_simps)
qed

lemma nat_of_digits_Cons:
  "nat_of_digits (d # ds) = digit_val d * 10 ^ length ds + nat_of_digits ds"
  using foldl_digits [of "digit_val d" ds] by (simp add: nat_of_digits_def)

lemma nonzero_digit:
  assumes "d \<in> set ''123456789''"
  shows "1 \<le> digit_val d" and "is_digit d" and "d \<noteq> CHR ''-''" and "d \<noteq> CHR ''+''"
  using assms by (auto simp: digit_val_def is_digit_def)

lemma py_int_NAT:
  assumes "accepts NAT w"
  shows "\<exists>v. py_int w = Some v \<and> 1 \<le> v"
proof -
  from assms obtain d ds where w: "w = d # ds" and d: "d \<in> set ''123456789''"
    and ds: "list_all is_digit ds"
    unfolding accepts_NAT by blast
  note nz = nonzero_digit [OF d]
  have "Suc 0 \<le> digit_val d * 10 ^ length ds" using nz(1) by (simp add: Suc_le_eq)
  then have "1 \<le> nat_of_digits (d # ds)" unfolding nat_of_digits_Cons by linarith
  then show ?thesis using w ds nz(2,3,4) by (simp add: py_int_def)
qed

lemma to_nat_NAT: "accepts NAT w \<Longrightarrow> \<exists>v. to_nat w = Inr v"
  by (auto simp: to_nat_def dest!: py_int_NAT)

section \<open>Real numbers\<close>

text \<open>The parts of a mantissa: digits, an optional point, digits; not both runs empty.\<close>

definition mantissa :: "string \<Rightarrow> string \<Rightarrow> string \<Rightarrow> bool" where
  "mantissa ip dot fp \<longleftrightarrow> list_all is_digit ip \<and> list_all is_digit fp \<and>
     (dot = [] \<and> fp = [] \<and> ip \<noteq> [] \<or> dot = ''.'' \<and> (ip \<noteq> [] \<or> fp \<noteq> []))"

lemma accepts_sign: "accepts (Opt (Cls ''+-'')) u \<longleftrightarrow> u \<in> {[], ''+'', ''-''}"
  by (auto simp: accepts_Opt)

lemma accepts_exponent:
  assumes "accepts (Opt (Seq (Cls ''eE'') (Seq (Opt (Cls ''+-'')) (Plus digit)))) ex"
  shows "exp_tail ex"
proof (cases "ex = []")
  case True
  then show ?thesis by (simp add: exp_tail_def)
next
  case False
  with assms have "accepts (Seq (Cls ''eE'') (Seq (Opt (Cls ''+-'')) (Plus digit))) ex"
    by (auto simp: accepts_Opt)
  then obtain c v where ex: "ex = c # v" and c: "c \<in> set ''eE''"
    and v: "accepts (Seq (Opt (Cls ''+-'')) (Plus digit)) v"
    unfolding accepts_Seq_Cls by blast
  from v obtain sg ed where "v = sg @ ed" "accepts (Opt (Cls ''+-'')) sg" "accepts (Plus digit) ed"
    unfolding accepts_Seq by blast
  with ex c show ?thesis
    unfolding exp_tail_def accepts_sign accepts_digits by blast
qed

lemma accepts_mantissa:
  assumes "accepts (Alt (Seq (Plus digit) (Opt (Seq (Lit CHR ''.'') (Star digit))))
                        (Seq (Lit CHR ''.'') (Plus digit))) m"
  shows "\<exists>ip dot fp. m = ip @ dot @ fp \<and> mantissa ip dot fp"
proof -
  from assms consider
      (int) "accepts (Seq (Plus digit) (Opt (Seq (Lit CHR ''.'') (Star digit)))) m"
    | (frac) "accepts (Seq (Lit CHR ''.'') (Plus digit)) m"
    by auto
  then show ?thesis
  proof cases
    case int
    then obtain ip r where m: "m = ip @ r" and ip: "ip \<noteq> []" "list_all is_digit ip"
      and r: "accepts (Opt (Seq (Lit CHR ''.'') (Star digit))) r"
      unfolding accepts_Seq [of "Plus digit"] accepts_digits by blast
    from r consider "r = []" | fp where "r = CHR ''.'' # fp" "list_all is_digit fp"
      unfolding accepts_Opt accepts_Seq_Lit accepts_digits by blast
    then show ?thesis
    proof cases
      case 1
      with m ip have "m = ip @ [] @ []" "mantissa ip [] []" by (simp_all add: mantissa_def)
      then show ?thesis by blast
    next
      case 2
      with m ip have "m = ip @ ''.'' @ fp" "mantissa ip ''.'' fp" by (simp_all add: mantissa_def)
      then show ?thesis by blast
    qed
  next
    case frac
    then obtain fp where "m = CHR ''.'' # fp" "fp \<noteq> []" "list_all is_digit fp"
      unfolding accepts_Seq_Lit accepts_digits by blast
    then have "m = [] @ ''.'' @ fp" "mantissa [] ''.'' fp" by (simp_all add: mantissa_def)
    then show ?thesis by blast
  qed
qed

lemma accepts_SREAL:
  assumes "accepts SREAL w"
  shows "\<exists>sg ip dot fp ex. w = sg @ ip @ dot @ fp @ ex \<and> sg \<in> {[], ''+'', ''-''}
    \<and> mantissa ip dot fp \<and> exp_tail ex"
proof -
  from assms obtain sg r where w: "w = sg @ r" and sg: "sg \<in> {[], ''+'', ''-''}"
    and r: "accepts REAL r"
    unfolding SREAL_def accepts_Seq [of "Opt (Cls ''+-'')"] accepts_sign by blast
  from r obtain m ex where r': "r = m @ ex"
    and m: "accepts (Alt (Seq (Plus digit) (Opt (Seq (Lit CHR ''.'') (Star digit))))
                        (Seq (Lit CHR ''.'') (Plus digit))) m"
    and ex: "accepts (Opt (Seq (Cls ''eE'') (Seq (Opt (Cls ''+-'')) (Plus digit)))) ex"
    unfolding REAL_def accepts_Seq [of "Alt _ _"] by blast
  from accepts_mantissa [OF m] obtain ip dot fp where m': "m = ip @ dot @ fp"
    and mant: "mantissa ip dot fp"
    by blast
  from w r' m' have "w = sg @ ip @ dot @ fp @ ex" by simp
  with sg mant accepts_exponent [OF ex] show ?thesis by blast
qed

text \<open>Conversely, every string of that shape is a word of \<open>[+-]?_REAL\<close>.\<close>

lemma exp_tail_I:
  "c \<in> set ''eE'' \<Longrightarrow> sg \<in> {[], ''+'', ''-''} \<Longrightarrow> ed \<noteq> [] \<Longrightarrow> list_all is_digit ed \<Longrightarrow>
   exp_tail (c # sg @ ed)"
  unfolding exp_tail_def by blast

lemma exponent_accepts:
  assumes "exp_tail ex"
  shows "accepts (Opt (Seq (Cls ''eE'') (Seq (Opt (Cls ''+-'')) (Plus digit)))) ex"
proof (cases "ex = []")
  case True
  then show ?thesis by (simp add: acc_OptNil)
next
  case False
  with assms obtain c sg ed where ex: "ex = c # sg @ ed" and c: "c \<in> set ''eE''"
    and sg: "sg \<in> {[], ''+'', ''-''}" and ed: "ed \<noteq> []" "list_all is_digit ed"
    unfolding exp_tail_def by blast
  from sg have "accepts (Opt (Cls ''+-'')) sg" by (simp only: accepts_sign)
  moreover from ed have "accepts (Plus digit) ed" by (simp add: accepts_digits)
  ultimately have "accepts (Seq (Opt (Cls ''+-'')) (Plus digit)) (sg @ ed)" by (rule acc_Seq)
  with c have "accepts (Seq (Cls ''eE'') (Seq (Opt (Cls ''+-'')) (Plus digit))) (c # sg @ ed)"
    unfolding accepts_Seq_Cls by blast
  with ex show ?thesis by (simp add: acc_Opt)
qed

lemma mantissa_accepts:
  assumes "mantissa ip dot fp"
  shows "accepts (Alt (Seq (Plus digit) (Opt (Seq (Lit CHR ''.'') (Star digit))))
                      (Seq (Lit CHR ''.'') (Plus digit))) (ip @ dot @ fp)"
proof -
  from assms have ip: "list_all is_digit ip" and fp: "list_all is_digit fp"
    and shape: "dot = [] \<and> fp = [] \<and> ip \<noteq> [] \<or> dot = ''.'' \<and> (ip \<noteq> [] \<or> fp \<noteq> [])"
    by (simp_all add: mantissa_def)
  from fp have star: "accepts (Star digit) fp" by (simp add: accepts_digits)
  show ?thesis
  proof (cases "ip = []")
    case True
    with shape have "dot = ''.''" "fp \<noteq> []" by auto
    with fp have "accepts (Seq (Lit CHR ''.'') (Plus digit)) (dot @ fp)"
      by (simp add: accepts_Seq_Lit accepts_digits)
    with True show ?thesis by (simp add: acc_AltR)
  next
    case False
    with ip have plus: "accepts (Plus digit) ip" by (simp add: accepts_digits)
    have "accepts (Opt (Seq (Lit CHR ''.'') (Star digit))) (dot @ fp)"
    proof (cases "dot = []")
      case True
      with shape show ?thesis by (simp add: acc_OptNil)
    next
      case False
      with shape have "dot = ''.''" by auto
      with star show ?thesis by (simp add: acc_Opt accepts_Seq_Lit)
    qed
    with plus have "accepts (Seq (Plus digit) (Opt (Seq (Lit CHR ''.'') (Star digit)))) (ip @ dot @ fp)"
      by (rule acc_Seq)
    then show ?thesis by (rule acc_AltL)
  qed
qed

lemma accepts_SREAL_I:
  assumes "sg \<in> {[], ''+'', ''-''}" and "mantissa ip dot fp" and "exp_tail ex"
  shows "accepts SREAL (sg @ ip @ dot @ fp @ ex)"
proof -
  from acc_Seq [OF mantissa_accepts [OF assms(2)] exponent_accepts [OF assms(3)]]
  have "accepts REAL (ip @ dot @ fp @ ex)" by (simp add: REAL_def)
  moreover from assms(1) have "accepts (Opt (Cls ''+-'')) sg" by (simp only: accepts_sign)
  ultimately show ?thesis unfolding SREAL_def by (rule acc_Seq [rotated])
qed

text \<open>The value that \<open>float\<close> gives to a literal, from its parts.\<close>

definition exp_value :: "string \<Rightarrow> real" where
  "exp_value ex =
     (case ex of [] \<Rightarrow> 1
      | c # r \<Rightarrow> pow10 (fst (split_sign r) * int (nat_of_digits (snd (split_sign r)))))"

definition literal_value :: "string \<Rightarrow> string \<Rightarrow> string \<Rightarrow> string \<Rightarrow> real" where
  "literal_value sg ip fp ex =
     of_int (fst (split_sign sg)) * (real (nat_of_digits ip) + real (nat_of_digits fp) / 10 ^ length fp)
       * exp_value ex"

lemma digit_not_sign: "is_digit c \<Longrightarrow> c \<noteq> CHR ''-'' \<and> c \<noteq> CHR ''+'' \<and> c \<noteq> CHR ''.''"
  by (auto simp: is_digit_def)

lemma exp_tail_hd: "exp_tail ex \<Longrightarrow> ex = [] \<or> hd ex \<in> set ''eE''"
  by (auto simp: exp_tail_def)

lemma split_sign_digits:
  "ds \<noteq> [] \<Longrightarrow> list_all is_digit ds \<Longrightarrow> sg \<in> {[], ''+'', ''-''} \<Longrightarrow>
   split_sign (sg @ ds) = (fst (split_sign sg), ds)"
  by (cases ds) (auto dest: digit_not_sign)

lemma py_float_tail:
  assumes "exp_tail ex"
  shows "(case ex of [] \<Rightarrow> Some v
          | c # r \<Rightarrow>
              if c \<in> set ''eE'' then
                (case split_sign r of
                   (esg, ds) \<Rightarrow>
                     if ds \<noteq> [] \<and> list_all is_digit ds
                     then Some (v * pow10 (esg * int (nat_of_digits ds)))
                     else None)
              else None) = Some (v * exp_value ex)"
proof (cases "ex = []")
  case True
  then show ?thesis by (simp add: exp_value_def)
next
  case False
  with assms obtain c sg ed where ex: "ex = c # sg @ ed" and c: "c \<in> set ''eE''"
    and sg: "sg \<in> {[], ''+'', ''-''}" and ed: "ed \<noteq> []" "list_all is_digit ed"
    unfolding exp_tail_def by blast
  note split_sign_digits [OF ed sg]
  with ex c ed show ?thesis by (simp add: exp_value_def)
qed

lemma py_float_literal:
  assumes sg: "sg \<in> {[], ''+'', ''-''}" and m: "mantissa ip dot fp" and ex: "exp_tail ex"
  shows "py_float (sg @ ip @ dot @ fp @ ex) = Some (literal_value sg ip fp ex)"
proof -
  let ?rest = "ip @ dot @ fp @ ex"
  from m have ip: "list_all is_digit ip" and fp: "list_all is_digit fp"
    and shape: "dot = [] \<and> fp = [] \<and> ip \<noteq> [] \<or> dot = ''.'' \<and> (ip \<noteq> [] \<or> fp \<noteq> [])"
    by (simp_all add: mantissa_def)
  have ex_hd: "ex = [] \<or> \<not> is_digit (hd ex) \<and> hd ex \<noteq> CHR ''.''"
    using exp_tail_hd [OF ex] by (auto simp: is_digit_def)
  have start: "?rest \<noteq> [] \<and> hd ?rest \<noteq> CHR ''-'' \<and> hd ?rest \<noteq> CHR ''+''"
    using shape ip by (cases ip) (auto dest: digit_not_sign)
  then have sign: "split_sign (sg @ ?rest) = (fst (split_sign sg), ?rest)"
    using sg by (cases ?rest) auto
  have stop: "dot @ fp @ ex = [] \<or> \<not> is_digit (hd (dot @ fp @ ex))"
    using shape ex_hd by (auto simp: is_digit_def)
  note span1 = span_digits [OF ip stop]
  have frac: "(case dot @ fp @ ex of [] \<Rightarrow> ([], [])
        | c # r \<Rightarrow> if c = CHR ''.'' then (takeWhile is_digit r, dropWhile is_digit r)
                  else ([], dot @ fp @ ex)) = (fp, ex)"
  proof (cases "dot = []")
    case True
    with shape ex_hd show ?thesis by (cases ex) auto
  next
    case False
    with shape have dot: "dot = ''.''" by auto
    from ex_hd have "ex = [] \<or> \<not> is_digit (hd ex)" by auto
    from span_digits [OF fp this] dot show ?thesis by simp
  qed
  have nonempty: "\<not> (ip = [] \<and> fp = [])" using shape by auto
  show ?thesis
    unfolding py_float_def sign
    by (simp only: Let_def prod.case span1 frac nonempty if_False py_float_tail [OF ex]
        literal_value_def)
qed

lemma to_real_SREAL:
  assumes "accepts SREAL w"
  shows "\<exists>v. to_real w = Inr v"
proof -
  from accepts_SREAL [OF assms] obtain sg ip dot fp ex where "w = sg @ ip @ dot @ fp @ ex"
    "sg \<in> {[], ''+'', ''-''}" "mantissa ip dot fp" "exp_tail ex"
    by blast
  then have "py_float w = Some (literal_value sg ip fp ex)" by (simp only: py_float_literal)
  then show ?thesis by (simp add: to_real_def)
qed

end
