(* ===== verification/QPD_Parser.thy ===== *)
theory QPD_Parser
  imports QPD_Lexical QPD_Circuit
begin

text \<open>
  \<open>parse_input\<close> of \<^verbatim>\<open>src/s-QPDs.py\<close> (lines 28--72): the input is stripped, refused
  if it still holds a whitespace character, and then scanned from left to right. At
  each position the five patterns are tried in the order \<open>S\<close>, \<open>R\<close>, \<open>C\<close>, \<open>L\<close>,
  \<open>B\<close>; the groups of the first that matches are converted and appended to \<open>data\<close>
  and \<open>x\<close>, and the scan goes on where the match ended. \<open>parse_loop\<close> is the
  \<open>while\<close> loop with its three variables \<open>pos\<close>, \<open>data\<close> and \<open>x\<close>; it terminates
  because no pattern matches the empty string.
\<close>

section \<open>Whitespace\<close>

text \<open>
  \<open>str.isspace\<close> on the characters with code points below 256: tab to carriage
  return, the four separators \<open>0x1c\<close> to \<open>0x1f\<close>, the space, NEL and the no-break
  space. \<open>str.strip\<close> removes these from both ends.
\<close>

definition isspace :: "char \<Rightarrow> bool" where
  "isspace c =
     (let n = (of_char c :: nat)
      in (9 \<le> n \<and> n \<le> 13) \<or> (28 \<le> n \<and> n \<le> 32) \<or> n = 133 \<or> n = 160)"

definition strip :: "string \<Rightarrow> string" where
  "strip s = rev (dropWhile isspace (rev (dropWhile isspace s)))"

section \<open>Matching at a position\<close>

text \<open>
  \<open>regex.match(s, pos)\<close>: the groups of the match and \<open>m.end()\<close>. The patterns have
  no anchors, so matching at \<open>pos\<close> is matching the rest of the string.
\<close>

definition match_at :: "rx \<Rightarrow> string \<Rightarrow> nat \<Rightarrow> (caps \<times> nat) option" where
  "match_at r s pos =
     (case re_match r (drop pos s) of None \<Rightarrow> None
      | Some (g, rest) \<Rightarrow> Some (g, length s - length rest))"

text \<open>\<open>m.group(n)\<close>; every group of the five patterns takes part in every match.\<close>

definition match_group :: "caps \<Rightarrow> nat \<Rightarrow> string" where
  "match_group g n = (case map_of g n of None \<Rightarrow> [] | Some w \<Rightarrow> w)"

definition regexes :: "(kind \<times> rx) list" where
  "regexes = [(KS, RE_S), (KR, RE_R), (KC, RE_C), (KL, RE_L), (KB, RE_B)]"

text \<open>The \<open>for\<close> loop over the patterns up to the first match.\<close>

fun first_match :: "(kind \<times> rx) list \<Rightarrow> string \<Rightarrow> nat \<Rightarrow> (kind \<times> caps \<times> nat) option" where
  "first_match [] s pos = None"
| "first_match ((k, r) # rs) s pos =
     (case match_at r s pos of None \<Rightarrow> first_match rs s pos | Some (g, e) \<Rightarrow> Some (k, g, e))"

section \<open>Building a tuple\<close>

text \<open>
  The conversions of the groups, in the order of the source: an exception of
  \<open>_to_real\<close> or \<open>_to_nat\<close> leaves \<open>parse_input\<close>.
\<close>

definition convert :: "kind \<Rightarrow> caps \<Rightarrow> item result" where
  "convert k g =
     (if k \<in> {KS, KR, KC, KL}
      then rbind (to_real (match_group g 1)) (\<lambda>val1.
           rbind (to_nat (match_group g 2)) (\<lambda>val2. Inr (Item1 k val1 val2)))
      else rbind (to_real (match_group g 1)) (\<lambda>val1.
           rbind (to_nat (match_group g 2)) (\<lambda>val2.
           rbind (to_nat (match_group g 3)) (\<lambda>val3. Inr (ItemB val1 val2 val3)))))"

section \<open>Progress of a match\<close>

lemma re_match_shorter:
  assumes "re_match r s = Some (g, rest)"
  shows "length rest \<le> length s" and "\<not> nullable r \<Longrightarrow> length rest < length s"
proof -
  from assms have "(g, rest) \<in> set (bt r ([], s))"
    by (auto simp: re_match_def split: list.splits)
  from bt_shorter [OF this] show "length rest \<le> length s"
    and "\<not> nullable r \<Longrightarrow> length rest < length s" by simp_all
qed

lemma match_at_advances:
  assumes "match_at r s pos = Some (g, e)" and "\<not> nullable r" and "pos < length s"
  shows "pos < e \<and> e \<le> length s"
proof -
  from assms(1) obtain rest where m: "re_match r (drop pos s) = Some (g, rest)"
    and e: "e = length s - length rest"
    by (auto simp: match_at_def split: option.splits)
  from re_match_shorter(2) [OF m assms(2)] have "length rest < length s - pos" by simp
  with e assms(3) show ?thesis by auto
qed

lemma first_match_advances:
  assumes "first_match rs s pos = Some (k, g, e)" and "\<forall>(k, r) \<in> set rs. \<not> nullable r"
    and "pos < length s"
  shows "pos < e \<and> e \<le> length s"
  using assms
proof (induction rs)
  case Nil
  then show ?case by simp
next
  case (Cons kr rs)
  obtain k' r where kr: "kr = (k', r)" by (cases kr)
  show ?case
  proof (cases "match_at r s pos")
    case None
    with Cons kr show ?thesis by simp
  next
    case (Some ge)
    with Cons.prems kr have "match_at r s pos = Some (g, e)" by (cases ge) simp
    then show ?thesis using Cons.prems kr by (intro match_at_advances [of r s pos g e]) auto
  qed
qed

lemma regexes_not_nullable: "\<forall>(k, r) \<in> set regexes. \<not> nullable r"
  by (simp add: regexes_def pattern_defs)

lemma first_match_regexes_advances:
  "first_match regexes s pos = Some (k, g, e) \<Longrightarrow> pos < length s \<Longrightarrow> pos < e \<and> e \<le> length s"
  using first_match_advances [OF _ regexes_not_nullable] by blast

section \<open>The scanning loop\<close>

function parse_loop :: "string \<Rightarrow> nat \<Rightarrow> data \<Rightarrow> item list \<Rightarrow> (data \<times> item list) result" where
  "parse_loop s pos data x =
     (if pos < length s then
        (case first_match regexes s pos of
           None \<Rightarrow> Inl (InvalidToken pos (slice s pos (pos + 12)))
         | Some (k, g, e) \<Rightarrow>
             rbind (convert k g) (\<lambda>item.
               parse_loop s e (data_append data k (payload_of item)) (x @ [item])))
      else Inr (data, x))"
  by pat_completeness auto
termination
proof (relation "measure (\<lambda>(s, pos, data, x). length s - pos)")
  show "wf (measure (\<lambda>(s, pos, data, x). length s - pos))" by simp
next
  fix s :: string and pos :: nat and data :: data and x :: "item list" and kge k ge g e item
  assume "pos < length s" and "first_match regexes s pos = Some kge"
    and "(k, ge) = kge" and "(g, e) = ge"
  then have "pos < e \<and> e \<le> length s"
    using first_match_regexes_advances [of s pos k g e] by auto
  then show "((s, e, data_append data k (payload_of item), x @ [item]), (s, pos, data, x))
      \<in> measure (\<lambda>(s, pos, data, x). length s - pos)"
    by auto
qed

declare parse_loop.simps [simp del]

text \<open>
  The whole function. The position reported for a whitespace character is that of the
  first one, and the snippet is \<open>s[max(0, i-5):i+5]\<close>.
\<close>

definition parse_input :: "string \<Rightarrow> (data \<times> item list) result" where
  "parse_input input_str =
     (let s = strip input_str
      in if list_ex isspace s
         then (let i = length (takeWhile (\<lambda>ch. \<not> isspace ch) s)
               in Inl (SpacesNotAllowed i (slice s (i - 5) (i + 5))))
         else parse_loop s 0 empty_data [])"

lemmas data_eval = kind_fun_eq_iff group_by_tag_def data_append_def empty_data_def

lemmas parser_eval = parse_input_def parse_loop.simps strip_def isspace_def regexes_def
  match_at_def re_match_def convert_def match_group_def slice_def pattern_defs numeral_eval

section \<open>What a match consumes\<close>

lemma match_at_minlen:
  assumes "match_at r s pos = Some (g, e)" and "pos \<le> length s"
  shows "pos + minlen r \<le> e \<and> e \<le> length s"
proof -
  from assms(1) obtain rest where m: "re_match r (drop pos s) = Some (g, rest)"
    and e: "e = length s - length rest"
    by (auto simp: match_at_def split: option.splits)
  from m have "(g, rest) \<in> set (bt r ([], drop pos s))"
    by (auto simp: re_match_def split: list.splits)
  from bt_minlen [OF this] have "length rest + minlen r \<le> length s - pos" by simp
  with e assms(2) show ?thesis by auto
qed

lemma first_match_minlen:
  assumes "first_match rs s pos = Some (k, g, e)" and "\<forall>(k, r) \<in> set rs. n \<le> minlen r"
    and "pos \<le> length s"
  shows "pos + n \<le> e \<and> e \<le> length s"
  using assms
proof (induction rs)
  case Nil
  then show ?case by simp
next
  case (Cons kr rs)
  obtain k' r where kr: "kr = (k', r)" by (cases kr)
  show ?case
  proof (cases "match_at r s pos")
    case None
    with Cons kr show ?thesis by simp
  next
    case (Some ge)
    with Cons.prems kr have "match_at r s pos = Some (g, e)" by (cases ge) simp
    from match_at_minlen [OF this Cons.prems(3)] Cons.prems(2) kr show ?thesis by auto
  qed
qed

lemma regexes_minlen: "\<forall>(k, r) \<in> set regexes. 4 \<le> minlen r"
  by (simp add: regexes_def pattern_defs)

section \<open>What a conversion builds\<close>

lemma to_nat_Inr: "to_nat w = Inr v \<Longrightarrow> 1 \<le> v"
  by (auto simp: to_nat_def split: option.splits if_splits)

lemma convert_Inr:
  assumes "convert k g = Inr item"
  shows "wf_item item \<and> tag item = k"
proof (cases "k \<in> {KS, KR, KC, KL}")
  case True
  with assms obtain v m where "item = Item1 k v m" "to_nat (match_group g 2) = Inr m"
    by (auto simp: convert_def rbind_eq_Inr_iff)
  with True show ?thesis by (auto dest: to_nat_Inr)
next
  case False
  then have k: "k = KB" by (cases k) auto
  from False assms obtain v a b where "item = ItemB v a b"
    "to_nat (match_group g 2) = Inr a" "to_nat (match_group g 3) = Inr b"
    by (auto simp: convert_def rbind_eq_Inr_iff)
  with k show ?thesis by (auto dest: to_nat_Inr)
qed

section \<open>What a match captures\<close>

text \<open>
  The text of a token and its groups: a match of a one-mode pattern has consumed the
  letter, a signed real, a comma and a natural number, and the groups 1 and 2 hold the
  two numerals; likewise for the beam splitter with its three groups.
\<close>

lemma groupfree_numerals [simp]: "groupfree (Seq (Opt (Cls ''+-'')) REAL)" "groupfree NAT"
  by (simp_all add: REAL_def NAT_def digit_def Plus_def)

lemma in_bt_Lit_Grp:
  assumes "groupfree r" and "(g', s') \<in> set (bt (Seq (Lit c) (Grp n r)) (g, s))"
  shows "\<exists>w. g' = (n, w) # g \<and> s = c # w @ s' \<and> accepts r w"
proof -
  from assms(2) obtain g1 s1 where 1: "(g1, s1) \<in> set (bt (Lit c) (g, s))"
    and 2: "(g', s') \<in> set (bt (Grp n r) (g1, s1))"
    unfolding in_bt_Seq by auto
  from 1 have "s = c # s1" "g1 = g" unfolding in_bt_Lit by simp_all
  with in_bt_Grp [OF assms(1) 2] show ?thesis by auto
qed

lemma in_bt_Lit_Grp_Seq:
  assumes "groupfree r" and "(g', s') \<in> set (bt (Seq (Lit c) (Seq (Grp n r) k)) (g, s))"
  shows "\<exists>w s1. s = c # w @ s1 \<and> accepts r w \<and> (g', s') \<in> set (bt k ((n, w) # g, s1))"
proof -
  from assms(2) obtain g1 s1 g2 s2 where 1: "(g1, s1) \<in> set (bt (Lit c) (g, s))"
    and 2: "(g2, s2) \<in> set (bt (Grp n r) (g1, s1))" and 3: "(g', s') \<in> set (bt k (g2, s2))"
    unfolding in_bt_Seq by auto
  from 1 have "s = c # s1" "g1 = g" unfolding in_bt_Lit by simp_all
  with in_bt_Grp [OF assms(1) 2] 3 show ?thesis by auto
qed

lemma bt_one_mode:
  assumes "(g, rest) \<in> set (bt (one_mode c) ([], s))"
  shows "\<exists>w1 w2. g = [(2, w2), (1, w1)] \<and> s = c # w1 @ CHR '','' # w2 @ rest
    \<and> accepts SREAL w1 \<and> accepts NAT w2"
proof -
  from in_bt_Lit_Grp_Seq [OF groupfree_numerals(1) assms [unfolded one_mode_def]] obtain w1 s1
    where 1: "s = c # w1 @ s1" "accepts SREAL w1"
      and 2: "(g, rest) \<in> set (bt (Seq (Lit CHR '','') (Grp 2 NAT)) ([(1, w1)], s1))"
    unfolding SREAL_def by (blast 8)
  from in_bt_Lit_Grp [OF groupfree_numerals(2) 2] obtain w2 where "g = [(2, w2), (1, w1)]"
    "s1 = CHR '','' # w2 @ rest" "accepts NAT w2"
    by (blast 8)
  with 1 show ?thesis by simp
qed

lemma bt_RE_B:
  assumes "(g, rest) \<in> set (bt RE_B ([], s))"
  shows "\<exists>w1 w2 w3. g = [(3, w3), (2, w2), (1, w1)]
    \<and> s = CHR ''B'' # w1 @ CHR '','' # w2 @ CHR '','' # w3 @ rest
    \<and> accepts SREAL w1 \<and> accepts NAT w2 \<and> accepts NAT w3"
proof -
  from in_bt_Lit_Grp_Seq [OF groupfree_numerals(1) assms [unfolded RE_B_def]] obtain w1 s1
    where 1: "s = CHR ''B'' # w1 @ s1" "accepts SREAL w1"
      and 2: "(g, rest) \<in> set (bt (Seq (Lit CHR '','') (Seq (Grp 2 NAT)
                (Seq (Lit CHR '','') (Grp 3 NAT)))) ([(1, w1)], s1))"
    unfolding SREAL_def by (blast 8)
  from in_bt_Lit_Grp_Seq [OF groupfree_numerals(2) 2] obtain w2 s2
    where 3: "s1 = CHR '','' # w2 @ s2" "accepts NAT w2"
      and 4: "(g, rest) \<in> set (bt (Seq (Lit CHR '','') (Grp 3 NAT)) ([(2, w2), (1, w1)], s2))"
    by (blast 8)
  from in_bt_Lit_Grp [OF groupfree_numerals(2) 4] obtain w3 where "g = [(3, w3), (2, w2), (1, w1)]"
    "s2 = CHR '','' # w3 @ rest" "accepts NAT w3"
    by (blast 8)
  with 1 3 show ?thesis by simp
qed

text \<open>A tuple is built from every match: no conversion fails on a captured group.\<close>

lemma match_at_convert:
  assumes "match_at r s pos = Some (g, e)" and "(k, r) \<in> set regexes"
  shows "\<exists>item. convert k g = Inr item"
proof -
  from assms(1) obtain rest where "re_match r (drop pos s) = Some (g, rest)"
    by (auto simp: match_at_def split: option.splits)
  then have m: "(g, rest) \<in> set (bt r ([], drop pos s))" by (rule re_match_in_bt)
  show ?thesis
  proof (cases "k = KB")
    case True
    with assms(2) have "r = RE_B" by (auto simp: regexes_def)
    with m bt_RE_B obtain w1 w2 w3 where "g = [(3, w3), (2, w2), (1, w1)]"
      "accepts SREAL w1" "accepts NAT w2" "accepts NAT w3"
      by blast
    with True to_real_SREAL [of w1] to_nat_NAT [of w2] to_nat_NAT [of w3] show ?thesis
      by (auto simp: convert_def match_group_def)
  next
    case False
    with assms(2) obtain c where "r = one_mode c" and k: "k \<in> {KS, KR, KC, KL}"
      by (auto simp: regexes_def RE_S_def RE_R_def RE_C_def RE_L_def)
    with m bt_one_mode obtain w1 w2 where "g = [(2, w2), (1, w1)]"
      "accepts SREAL w1" "accepts NAT w2"
      by blast
    with k to_real_SREAL [of w1] to_nat_NAT [of w2] show ?thesis
      by (auto simp: convert_def match_group_def)
  qed
qed

lemma first_match_in_regexes:
  "first_match rs s pos = Some (k, g, e) \<Longrightarrow> \<exists>r. (k, r) \<in> set rs \<and> match_at r s pos = Some (g, e)"
  by (induction rs) (auto split: option.splits)

lemma first_match_convert:
  "first_match regexes s pos = Some (k, g, e) \<Longrightarrow> \<exists>item. convert k g = Inr item"
  using first_match_in_regexes match_at_convert by blast

section \<open>Invariants of the scanning loop\<close>

lemma parse_loop_invariant:
  assumes "parse_loop s pos data x = Inr (data', x')"
    and "list_all wf_item x" and "data = group_by_tag x" and "pos \<le> length s"
  shows "list_all wf_item x' \<and> data' = group_by_tag x' \<and> (\<exists>y. x' = x @ y)
    \<and> 4 * (length x' - length x) \<le> length s - pos"
  using assms
proof (induction s pos data x rule: parse_loop.induct)
  case (1 s pos data x)
  show ?case
  proof (cases "pos < length s")
    case False
    with "1.prems" show ?thesis by (auto simp: parse_loop.simps [of s pos])
  next
    case True
    with "1.prems"(1) obtain k g e item where fm: "first_match regexes s pos = Some (k, g, e)"
      and cv: "convert k g = Inr item"
      and rest: "parse_loop s e (data_append data k (payload_of item)) (x @ [item]) = Inr (data', x')"
      by (auto simp: parse_loop.simps [of s pos] rbind_eq_Inr_iff split: option.splits)
    from first_match_minlen [OF fm regexes_minlen] "1.prems"(4)
    have e: "pos + 4 \<le> e" "e \<le> length s" by simp_all
    from convert_Inr [OF cv] have it: "wf_item item" "tag item = k" by simp_all
    have "list_all wf_item (x @ [item])" using "1.prems"(2) it by simp
    moreover have "data_append data k (payload_of item) = group_by_tag (x @ [item])"
      using "1.prems"(3) it by (simp add: group_by_tag_snoc)
    ultimately have "list_all wf_item x' \<and> data' = group_by_tag x' \<and> (\<exists>y. x' = (x @ [item]) @ y)
        \<and> 4 * (length x' - length (x @ [item])) \<le> length s - e"
      using "1.IH" [OF True fm refl refl cv rest] e(2) by simp
    with e show ?thesis by auto
  qed
qed

text \<open>The only exit of the loop by an exception is the one for an unknown token.\<close>

lemma parse_loop_error:
  assumes "parse_loop s pos data x = Inl e"
  shows "\<exists>p. e = InvalidToken p (slice s p (p + 12)) \<and> pos \<le> p \<and> p < length s
    \<and> first_match regexes s p = None"
  using assms
proof (induction s pos data x rule: parse_loop.induct)
  case (1 s pos data x)
  from "1.prems" have lt: "pos < length s" by (auto simp: parse_loop.simps [of s pos] split: if_splits)
  show ?case
  proof (cases "first_match regexes s pos")
    case None
    with "1.prems" lt show ?thesis by (auto simp: parse_loop.simps [of s pos])
  next
    case (Some kge)
    obtain k g e' where kge: "kge = (k, g, e')" by (cases kge)
    from first_match_convert [OF Some [unfolded kge]] obtain item where cv: "convert k g = Inr item" ..
    from "1.prems" lt Some kge cv
    have rest: "parse_loop s e' (data_append data k (payload_of item)) (x @ [item]) = Inl e"
      by (simp add: parse_loop.simps [of s pos])
    from first_match_regexes_advances [OF Some [unfolded kge] lt] have "pos < e'" by simp
    with "1.IH" [OF lt Some [unfolded kge] refl refl cv rest] show ?thesis by auto
  qed
qed

section \<open>Whitespace\<close>

lemma last_dropWhile: "dropWhile P xs \<noteq> [] \<Longrightarrow> last (dropWhile P xs) = last xs"
  by (metis last_appendR takeWhile_dropWhile_id)

lemma strip_no_outer_space:
  assumes "strip s \<noteq> []"
  shows "\<not> isspace (hd (strip s))" and "\<not> isspace (last (strip s))"
proof -
  let ?t = "dropWhile isspace s"
  let ?u = "dropWhile isspace (rev ?t)"
  from assms have u: "?u \<noteq> []" by (simp add: strip_def)
  have t: "?t \<noteq> []"
  proof
    assume "?t = []"
    then have "?u = []" by (simp only: rev.simps dropWhile.simps)
    with u show False ..
  qed
  have "last (strip s) = hd ?u" using u by (simp add: strip_def last_rev)
  then show "\<not> isspace (last (strip s))" using hd_dropWhile [OF u] by simp
  have "hd (strip s) = last ?u" using u by (simp add: strip_def hd_rev)
  also have "\<dots> = last (rev ?t)" using u by (rule last_dropWhile)
  also have "\<dots> = hd ?t" using t by (simp add: last_rev)
  finally show "\<not> isspace (hd (strip s))" using hd_dropWhile [OF t] by simp
qed

lemma strip_strip [simp]: "strip (strip s) = strip s"
proof (cases "strip s = []")
  case True
  then show ?thesis by (simp add: strip_def [of "[]"])
next
  case False
  note ns = strip_no_outer_space [OF False]
  have 1: "dropWhile isspace (strip s) = strip s"
    using ns(1) False by (simp add: dropWhile_eq_self_iff)
  have 2: "dropWhile isspace (rev (strip s)) = rev (strip s)"
    using ns(2) False by (simp add: dropWhile_eq_self_iff hd_rev)
  show ?thesis by (simp add: strip_def [of "strip s"] 1 2)
qed

lemma first_space_index:
  assumes "list_ex isspace s"
  defines "i \<equiv> length (takeWhile (\<lambda>ch. \<not> isspace ch) s)"
  shows "i < length s" and "isspace (s ! i)" and "\<forall>j < i. \<not> isspace (s ! j)"
proof -
  let ?P = "\<lambda>ch. \<not> isspace ch"
  have "dropWhile ?P s \<noteq> []"
    using assms(1) by (simp add: dropWhile_eq_Nil_conv list_ex_iff)
  moreover have "length (takeWhile ?P s) + length (dropWhile ?P s) = length s"
    by (simp flip: length_append)
  ultimately show less: "i < length s" unfolding i_def by (cases "dropWhile ?P s") simp_all
  then show "isspace (s ! i)"
    unfolding i_def using nth_length_takeWhile [of ?P s] by simp
  show "\<forall>j < i. \<not> isspace (s ! j)"
  proof (intro allI impI)
    fix j assume j: "j < i"
    then have "takeWhile ?P s ! j \<in> set (takeWhile ?P s)" unfolding i_def by simp
    then have "\<not> isspace (takeWhile ?P s ! j)" by (rule set_takeWhileD [THEN conjunct2])
    then show "\<not> isspace (s ! j)" using j unfolding i_def by (simp add: takeWhile_nth)
  qed
qed

section \<open>What a successful parse means\<close>

lemma parse_input_Inr:
  assumes "parse_input str = Inr (data, x)"
  shows "\<not> list_ex isspace (strip str)"
    and "parse_loop (strip str) 0 empty_data [] = Inr (data, x)"
  using assms by (simp_all add: parse_input_def Let_def split: if_splits)

lemma parse_input_wf: "parse_input str = Inr (data, x) \<Longrightarrow> list_all wf_item x"
  using parse_loop_invariant [OF parse_input_Inr(2)] by simp

lemma parse_input_strip [simp]: "parse_input (strip str) = parse_input str"
  by (simp add: parse_input_def)

section \<open>Properties\<close>

text \<open>
  \<^bold>\<open>C3\<close> (type). What \<open>parse_input\<close> returns is well formed: every tuple of \<open>x\<close>
  has mode numbers of at least 1, a three-element tuple never carries the tag \<open>'B'\<close>,
  and the dictionary \<open>data\<close> is the grouping of \<open>x\<close> by tag, each list in textual
  order. The engine can therefore ignore \<open>data\<close> and never meets a tuple it has no
  branch for.
\<close>

theorem parse_input_well_formed:
  assumes "parse_input str = Inr (data, x)"
  shows "list_all wf_item x \<and> data = group_by_tag x"
proof -
  from assms have "parse_loop (strip str) 0 empty_data [] = Inr (data, x)"
    by (simp add: parse_input_def Let_def split: if_splits)
  from parse_loop_invariant [OF this] show ?thesis by simp
qed

theorem parse_input_well_formed_witness:
  "parse_input ''S1.2,3B-2.5,2,5'' = Inr (group_by_tag [Item1 KS (12/10) 3, ItemB (- 25/10) 2 5],
      [Item1 KS (12/10) 3, ItemB (- 25/10) 2 5])
   \<and> list_all wf_item [Item1 KS (12/10) 3, ItemB (- 25/10) 2 5]"
proof -
  have p: "parse_input ''S1.2,3B-2.5,2,5''
      = Inr (group_by_tag [Item1 KS (12/10) 3, ItemB (- 25/10) 2 5],
             [Item1 KS (12/10) 3, ItemB (- 25/10) 2 5])"
    by (simp add: parser_eval data_eval)
  from parse_input_well_formed [OF p] p show ?thesis by simp
qed

text \<open>
  \<^bold>\<open>C29\<close> (termination). The scanning loop ends: every match of one of the five
  patterns consumes at least four characters (a letter, a digit, a comma, a digit), so
  the position strictly increases and a successful parse of a stripped input of \<open>n\<close>
  characters returns at most \<open>n / 4\<close> tuples.
\<close>

theorem parse_input_token_bound:
  assumes "parse_input str = Inr (data, x)"
  shows "4 * length x \<le> length (strip str)"
proof -
  from assms have "parse_loop (strip str) 0 empty_data [] = Inr (data, x)"
    by (simp add: parse_input_def Let_def split: if_splits)
  from parse_loop_invariant [OF this] show ?thesis by simp
qed

theorem parse_input_token_bound_witness:
  "map_sum id snd (parse_input ''S1,2R3,4'') = Inr [Item1 KS 1 2, Item1 KR 3 4] \<and>
   4 * length [Item1 KS 1 2, Item1 KR 3 4] \<le> length (strip ''S1,2R3,4'')"
proof -
  have "\<exists>data. parse_input ''S1,2R3,4'' = Inr (data, [Item1 KS 1 2, Item1 KR 3 4])"
    by (simp add: parser_eval)
  then obtain data where p: "parse_input ''S1,2R3,4'' = Inr (data, [Item1 KS 1 2, Item1 KR 3 4])" ..
  from parse_input_token_bound [OF p] p show ?thesis by simp
qed

text \<open>
  \<^bold>\<open>C28\<close> (error). An input that still holds a whitespace character after stripping
  is refused before any token is read: \<open>parse_input\<close> raises the error that names the
  position of the first whitespace character and the ten characters around it. That
  position is never the first or the last of the stripped input.
\<close>

theorem parse_input_whitespace:
  assumes "list_ex isspace (strip str)"
  shows "\<exists>i. parse_input str = Inl (SpacesNotAllowed i (slice (strip str) (i - 5) (i + 5)))
    \<and> 0 < i \<and> i + 1 < length (strip str) \<and> isspace (strip str ! i)
    \<and> (\<forall>j < i. \<not> isspace (strip str ! j))"
proof -
  let ?s = "strip str"
  let ?i = "length (takeWhile (\<lambda>ch. \<not> isspace ch) ?s)"
  note idx = first_space_index [OF assms]
  from idx(1) have ne: "?s \<noteq> []" by auto
  have "?i \<noteq> 0"
    using strip_no_outer_space(1) [OF ne] idx(2) ne by (auto simp: hd_conv_nth)
  moreover have "?i \<noteq> length ?s - 1"
    using strip_no_outer_space(2) [OF ne] idx(2) ne by (auto simp: last_conv_nth)
  moreover have "parse_input str = Inl (SpacesNotAllowed ?i (slice ?s (?i - 5) (?i + 5)))"
    using assms by (simp add: parse_input_def Let_def)
  ultimately show ?thesis using idx by (intro exI [of _ ?i]) auto
qed

theorem parse_input_whitespace_witness:
  "list_ex isspace (strip '' S1.2,3 R-0.5,2 '') \<and>
   parse_input '' S1.2,3 R-0.5,2 '' = Inl (SpacesNotAllowed 6 ''1.2,3 R-0.'')"
proof -
  have sp: "list_ex isspace (strip '' S1.2,3 R-0.5,2 '')"
    by (simp add: strip_def isspace_def)
  from parse_input_whitespace [OF sp] sp show ?thesis
    by (simp add: parse_input_def strip_def isspace_def slice_def)
qed

text \<open>
  \<^bold>\<open>C17\<close> (error). \<open>parse_input\<close> raises for two reasons only: whitespace inside the
  stripped input, or a position at which none of the five patterns matches, reported
  with the twelve characters that follow. The \<open>except\<close> branches of \<open>_to_real\<close> and
  \<open>_to_nat\<close> and the test \<open>v < 1\<close> are never reached from \<open>parse_input\<close>: every
  string that the patterns capture converts (in the model, where \<open>int\<close> has no limit
  on the number of digits).
\<close>

theorem parse_input_errors:
  assumes "parse_input str = Inl e"
  shows "(\<exists>i. e = SpacesNotAllowed i (slice (strip str) (i - 5) (i + 5)) \<and> list_ex isspace (strip str))
    \<or> (\<exists>p. e = InvalidToken p (slice (strip str) p (p + 12)) \<and> p < length (strip str)
          \<and> first_match regexes (strip str) p = None)"
proof (cases "list_ex isspace (strip str)")
  case True
  with assms show ?thesis by (auto simp: parse_input_def Let_def)
next
  case False
  with assms have "parse_loop (strip str) 0 empty_data [] = Inl e"
    by (simp add: parse_input_def Let_def)
  from parse_loop_error [OF this] show ?thesis by blast
qed

theorem parse_input_errors_witness:
  "parse_input ''S1.2,3X'' = Inl (InvalidToken 6 ''X'') \<and>
   first_match regexes (strip ''S1.2,3X'') 6 = None"
proof -
  have p: "parse_input ''S1.2,3X'' = Inl (InvalidToken 6 ''X'')"
    by (simp add: parser_eval)
  from parse_input_errors [OF p] show ?thesis using p by (auto simp: strip_def isspace_def)
qed

end
