(* ===== verification/QPD_Grammar.thy ===== *)
theory QPD_Grammar
  imports QPD_Parser
begin

text \<open>
  The grammar that \<open>parse_input\<close> of \<^verbatim>\<open>src/s-QPDs.py\<close> accepts, read off its
  patterns: a circuit is a sequence of tokens, a token is a letter, a signed real, a
  comma and one natural number, or two for the letter \<open>B\<close>. The lemmas show that the
  parser is sound for this grammar: the input it accepts is the concatenation of the
  texts of such tokens, and the tuples it returns are the conversions of their numerals,
  in order. They also show that it is complete: a token followed by nothing or by the
  letter of another token is matched by the pattern of its tag and by no pattern tried
  before it, so every sequence of tokens is accepted and gives back its tuples. Where
  the parser refuses an input, the text before the reported position is a sequence of
  tokens and no token starts at it.
\<close>

section \<open>Tokens\<close>

datatype token = Tok1 kind string string | TokB string string string

fun letter :: "kind \<Rightarrow> char" where
  "letter KS = CHR ''S''"
| "letter KR = CHR ''R''"
| "letter KC = CHR ''C''"
| "letter KL = CHR ''L''"
| "letter KB = CHR ''B''"

fun token_kind :: "token \<Rightarrow> kind" where
  "token_kind (Tok1 k w1 w2) = k"
| "token_kind (TokB w1 w2 w3) = KB"

text \<open>The text of a token.\<close>

fun token_text :: "token \<Rightarrow> string" where
  "token_text (Tok1 k w1 w2) = letter k # w1 @ CHR '','' # w2"
| "token_text (TokB w1 w2 w3) = CHR ''B'' # w1 @ CHR '','' # w2 @ CHR '','' # w3"

text \<open>The groups that a match of the token's pattern captures.\<close>

fun token_caps :: "token \<Rightarrow> caps" where
  "token_caps (Tok1 k w1 w2) = [(2, w2), (1, w1)]"
| "token_caps (TokB w1 w2 w3) = [(3, w3), (2, w2), (1, w1)]"

text \<open>A token of the grammar: its numerals are words of \<open>[+-]?_REAL\<close> and \<open>_NAT\<close>.\<close>

fun token_ok :: "token \<Rightarrow> bool" where
  "token_ok (Tok1 k w1 w2) \<longleftrightarrow> k \<noteq> KB \<and> accepts SREAL w1 \<and> accepts NAT w2"
| "token_ok (TokB w1 w2 w3) \<longleftrightarrow> accepts SREAL w1 \<and> accepts NAT w2 \<and> accepts NAT w3"

text \<open>The tuple of a token.\<close>

definition token_item :: "token \<Rightarrow> item result" where
  "token_item t = convert (token_kind t) (token_caps t)"

section \<open>One match is one token\<close>

lemma regexes_letter:
  "(k, r) \<in> set regexes \<Longrightarrow> (k = KB \<and> r = RE_B) \<or> (k \<noteq> KB \<and> r = one_mode (letter k))"
  by (auto simp: regexes_def RE_S_def RE_R_def RE_C_def RE_L_def)

lemma match_at_token:
  assumes m: "match_at r s pos = Some (g, e)" and kr: "(k, r) \<in> set regexes" and pos: "pos \<le> length s"
  shows "\<exists>t. token_ok t \<and> token_kind t = k \<and> token_caps t = g \<and> drop pos s = token_text t @ drop e s"
proof -
  from m obtain rest where re: "re_match r (drop pos s) = Some (g, rest)"
    and e: "e = length s - length rest"
    by (auto simp: match_at_def split: option.splits)
  from re have inbt: "(g, rest) \<in> set (bt r ([], drop pos s))" by (rule re_match_in_bt)
  from bt_shorter [OF inbt] have "length rest \<le> length s - pos" by simp
  have rest: "rest = drop e s" if "drop pos s = w @ rest" for w
  proof -
    have "drop (pos + length w) s = drop (length w) (drop pos s)" by (simp add: add.commute)
    with that have d: "drop (pos + length w) s = rest" by simp
    from that have "length w + length rest = length s - pos"
      by (metis length_append length_drop)
    with e pos have "e = pos + length w" by linarith
    with d show ?thesis by simp
  qed
  from regexes_letter [OF kr] show ?thesis
  proof
    assume kb: "k = KB \<and> r = RE_B"
    with inbt have "(g, rest) \<in> set (bt RE_B ([], drop pos s))" by simp
    from bt_RE_B [OF this] obtain w1 w2 w3 where g: "g = [(3, w3), (2, w2), (1, w1)]"
      and s: "drop pos s = CHR ''B'' # w1 @ CHR '','' # w2 @ CHR '','' # w3 @ rest"
      and ok: "accepts SREAL w1" "accepts NAT w2" "accepts NAT w3"
      by (elim exE conjE) (rule that)
    from s have "drop pos s = token_text (TokB w1 w2 w3) @ rest" by simp
    with rest [of "token_text (TokB w1 w2 w3)"] g ok kb show ?thesis
      by (intro exI [of _ "TokB w1 w2 w3"]) simp
  next
    assume k: "k \<noteq> KB \<and> r = one_mode (letter k)"
    with inbt have "(g, rest) \<in> set (bt (one_mode (letter k)) ([], drop pos s))" by simp
    from bt_one_mode [OF this] obtain w1 w2 where g: "g = [(2, w2), (1, w1)]"
      and s: "drop pos s = letter k # w1 @ CHR '','' # w2 @ rest"
      and ok: "accepts SREAL w1" "accepts NAT w2"
      by (elim exE conjE) (rule that)
    from s have "drop pos s = token_text (Tok1 k w1 w2) @ rest" by simp
    with rest [of "token_text (Tok1 k w1 w2)"] g ok k show ?thesis
      by (intro exI [of _ "Tok1 k w1 w2"]) simp
  qed
qed

lemma first_match_token:
  assumes "first_match regexes s pos = Some (k, g, e)" and "pos \<le> length s"
  shows "\<exists>t. token_ok t \<and> token_kind t = k \<and> token_caps t = g \<and> drop pos s = token_text t @ drop e s"
  using first_match_in_regexes [OF assms(1)] match_at_token [OF _ _ assms(2)] by blast

section \<open>The loop reads a sequence of tokens\<close>

lemma parse_loop_tokens:
  assumes "parse_loop s pos data x = Inr (data', x')" and "pos \<le> length s"
  shows "\<exists>ts. drop pos s = concat (map token_text ts) \<and> list_all token_ok ts
    \<and> map Inr x' = map Inr x @ map token_item ts"
  using assms
proof (induction s pos data x rule: parse_loop.induct)
  case (1 s pos data x)
  show ?case
  proof (cases "pos < length s")
    case False
    with "1.prems" have "x' = x" "drop pos s = []" by (auto simp: parse_loop.simps [of s pos])
    then show ?thesis by (intro exI [of _ "[]"]) simp
  next
    case True
    with "1.prems"(1) obtain k g e item where fm: "first_match regexes s pos = Some (k, g, e)"
      and cv: "convert k g = Inr item"
      and rest: "parse_loop s e (data_append data k (payload_of item)) (x @ [item]) = Inr (data', x')"
      by (auto simp: parse_loop.simps [of s pos] rbind_eq_Inr_iff split: option.splits)
    from first_match_regexes_advances [OF fm True] have e: "e \<le> length s" by simp
    from first_match_token [OF fm "1.prems"(2)] obtain t where t: "token_ok t" "token_kind t = k"
      "token_caps t = g" "drop pos s = token_text t @ drop e s"
      by blast
    from "1.IH" [OF True fm refl refl cv rest e] obtain ts
      where ts: "drop e s = concat (map token_text ts)" "list_all token_ok ts"
        "map Inr x' = map Inr (x @ [item]) @ map token_item ts"
      by blast
    from t cv have "token_item t = Inr item" by (simp add: token_item_def)
    with t ts show ?thesis by (intro exI [of _ "t # ts"]) simp
  qed
qed

section \<open>A token is matched by its pattern\<close>

text \<open>The pattern that the loop tries for a tag.\<close>

fun pattern_of :: "kind \<Rightarrow> rx" where
  "pattern_of KB = RE_B"
| "pattern_of k = one_mode (letter k)"

text \<open>What may follow a token: nothing, or the letter of the next token.\<close>

definition follows :: "string \<Rightarrow> bool" where
  "follows rest \<longleftrightarrow> rest = [] \<or> hd rest \<in> set ''SRCLB''"

lemma det_numerals:
  "det (Seq (Opt (Cls ''+-'')) REAL) '',''" "det NAT ''SRCLB''" "det NAT '',''"
  by (simp_all add: REAL_def NAT_def digit_def Plus_def disjoint_def)

lemma gm_real_group:
  "accepts SREAL w \<Longrightarrow>
   gm (Grp n (Seq (Opt (Cls ''+-'')) REAL)) (g, w @ CHR '','' # u) = Some ((n, w) # g, CHR '','' # u)"
  by (rule gm_Grp_complete [OF _ groupfree_numerals(1) det_numerals(1)]) (simp_all add: SREAL_def)

lemma gm_nat_group_comma:
  "accepts NAT w \<Longrightarrow> gm (Grp n NAT) (g, w @ CHR '','' # u) = Some ((n, w) # g, CHR '','' # u)"
  by (rule gm_Grp_complete [OF _ groupfree_numerals(2) det_numerals(3)]) simp_all

lemma gm_nat_group_last:
  "accepts NAT w \<Longrightarrow> follows rest \<Longrightarrow> gm (Grp n NAT) (g, w @ rest) = Some ((n, w) # g, rest)"
  by (rule gm_Grp_complete [OF _ groupfree_numerals(2) det_numerals(2)]) (simp_all add: follows_def)

lemma re_match_token:
  assumes "token_ok t" and "follows rest"
  shows "re_match (pattern_of (token_kind t)) (token_text t @ rest) = Some (token_caps t, rest)"
proof (cases t)
  case (Tok1 k w1 w2)
  with assms have ok: "accepts SREAL w1" "accepts NAT w2" and k: "k \<noteq> KB" by simp_all
  from k have p: "pattern_of k = one_mode (letter k)" by (cases k) simp_all
  have "gm (one_mode (letter k)) ([], letter k # w1 @ CHR '','' # w2 @ rest)
      = Some ([(2, w2), (1, w1)], rest)"
    by (simp add: one_mode_def gm_real_group [OF ok(1)] gm_nat_group_last [OF ok(2) assms(2)]
        del: gm.simps(7))
  with Tok1 p show ?thesis by (simp add: re_match_one_mode)
next
  case (TokB w1 w2 w3)
  with assms have ok: "accepts SREAL w1" "accepts NAT w2" "accepts NAT w3" by simp_all
  have "gm RE_B ([], CHR ''B'' # w1 @ CHR '','' # w2 @ CHR '','' # w3 @ rest)
      = Some ([(3, w3), (2, w2), (1, w1)], rest)"
    by (simp add: RE_B_def gm_real_group [OF ok(1)] gm_nat_group_comma [OF ok(2)]
        gm_nat_group_last [OF ok(3) assms(2)] del: gm.simps(7))
  with TokB show ?thesis by (simp add: re_match_RE_B)
qed



lemma re_match_other_letter:
  "c \<noteq> c' \<Longrightarrow> re_match (one_mode c') (c # u) = None"
  "c \<noteq> CHR ''B'' \<Longrightarrow> re_match RE_B (c # u) = None"
  by (simp_all only: re_match_one_mode re_match_RE_B) (simp_all add: one_mode_def RE_B_def)

lemma hd_token_text: "token_text t = letter (token_kind t) # tl (token_text t)"
  by (cases t) simp_all

lemma token_text_append:
  "token_text t @ rest = letter (token_kind t) # (tl (token_text t) @ rest)"
  by (cases t) simp_all

lemma letter_mem: "letter k \<in> set ''SRCLB''"
  by (cases k) simp_all

lemma letter_inject: "letter k = letter k' \<longleftrightarrow> k = k'"
  by (cases k; cases k') simp_all

lemma first_match_token_text:
  assumes ok: "token_ok t" and fo: "follows rest" and s: "drop pos s = token_text t @ rest"
  shows "first_match regexes s pos = Some (token_kind t, token_caps t, length s - length rest)"
proof -
  let ?k = "token_kind t"
  have hit: "match_at (pattern_of ?k) s pos = Some (token_caps t, length s - length rest)"
    using re_match_token [OF ok fo] s by (simp add: match_at_def)
  from s have s': "drop pos s = letter ?k # (tl (token_text t) @ rest)"
    by (simp only: token_text_append)
  have miss1: "match_at (one_mode (letter k)) s pos = None" if "k \<noteq> ?k" for k
  proof -
    from that have "letter ?k \<noteq> letter k" by (simp add: letter_inject)
    from re_match_other_letter(1) [OF this] show ?thesis by (simp add: match_at_def s')
  qed
  show ?thesis
  proof (cases ?k)
    case KS
    with hit show ?thesis by (simp add: regexes_def RE_S_def)
  next
    case KR
    with hit miss1 [of KS] show ?thesis by (simp add: regexes_def RE_S_def RE_R_def)
  next
    case KC
    with hit miss1 [of KS] miss1 [of KR] show ?thesis
      by (simp add: regexes_def RE_S_def RE_R_def RE_C_def)
  next
    case KL
    with hit miss1 [of KS] miss1 [of KR] miss1 [of KC] show ?thesis
      by (simp add: regexes_def RE_S_def RE_R_def RE_C_def RE_L_def)
  next
    case KB
    with hit miss1 [of KS] miss1 [of KR] miss1 [of KC] miss1 [of KL] show ?thesis
      by (simp add: regexes_def RE_S_def RE_R_def RE_C_def RE_L_def)
  qed
qed

section \<open>The loop accepts every sequence of tokens\<close>

lemma token_item_ok:
  assumes "token_ok t"
  shows "\<exists>item. token_item t = Inr item"
proof (cases t)
  case (Tok1 k w1 w2)
  with assms have k: "k \<in> {KS, KR, KC, KL}" and ok: "accepts SREAL w1" "accepts NAT w2"
    by (cases k; simp)+
  from to_real_SREAL [OF ok(1)] to_nat_NAT [OF ok(2)] obtain v m
    where "to_real w1 = Inr v" "to_nat w2 = Inr m"
    by (elim exE) (rule that)
  with Tok1 k show ?thesis by (simp add: token_item_def convert_def match_group_def)
next
  case (TokB w1 w2 w3)
  with assms have ok: "accepts SREAL w1" "accepts NAT w2" "accepts NAT w3" by simp_all
  from to_real_SREAL [OF ok(1)] to_nat_NAT [OF ok(2)] to_nat_NAT [OF ok(3)] obtain v a b
    where "to_real w1 = Inr v" "to_nat w2 = Inr a" "to_nat w3 = Inr b"
    by (elim exE) (rule that)
  with TokB show ?thesis by (simp add: token_item_def convert_def match_group_def)
qed

lemma follows_tokens: "follows (concat (map token_text ts))"
proof (cases ts)
  case Nil
  then show ?thesis by (simp add: follows_def)
next
  case (Cons t ts')
  then have "concat (map token_text ts) = letter (token_kind t) # (tl (token_text t) @ concat (map token_text ts'))"
    by (simp add: token_text_append)
  then show ?thesis using letter_mem [of "token_kind t"] by (simp add: follows_def)
qed

lemma parse_loop_complete:
  assumes "list_all token_ok ts" and "drop pos s = concat (map token_text ts)"
  shows "\<exists>data' x'. parse_loop s pos data x = Inr (data', x')
    \<and> map Inr x' = map Inr x @ map token_item ts"
  using assms
proof (induction ts arbitrary: pos data x)
  case Nil
  then show ?case by (simp add: parse_loop.simps [of s pos])
next
  case (Cons t ts)
  let ?rest = "concat (map token_text ts)"
  let ?e = "length s - length ?rest"
  from Cons.prems have ok: "token_ok t" and s: "drop pos s = token_text t @ ?rest" by simp_all
  from s have lt: "pos < length s" by (cases "pos < length s") (simp_all add: token_text_append)
  from first_match_token_text [OF ok follows_tokens s]
  have fm: "first_match regexes s pos = Some (token_kind t, token_caps t, ?e)" .
  from token_item_ok [OF ok] obtain item where it: "convert (token_kind t) (token_caps t) = Inr item"
    by (auto simp: token_item_def)
  have "length (drop pos s) = length (token_text t) + length ?rest" by (simp add: s)
  then have e: "?e = pos + length (token_text t)" using lt by simp
  have "drop ?e s = drop (length (token_text t)) (drop pos s)" by (simp add: e add.commute)
  then have "drop ?e s = ?rest" by (simp add: s)
  from Cons.IH [OF _ this, of "data_append data (token_kind t) (payload_of item)" "x @ [item]"]
    Cons.prems(1)
  obtain data' x' where "parse_loop s ?e (data_append data (token_kind t) (payload_of item)) (x @ [item])
      = Inr (data', x')" and "map Inr x' = map Inr (x @ [item]) @ map token_item ts"
    by auto
  with lt fm it show ?case
    by (simp add: parse_loop.simps [of s pos] token_item_def)
qed

section \<open>Token texts hold no whitespace\<close>

lemma token_text_subset:
  assumes "token_ok t" and sr: "set (alphabet SREAL) \<subseteq> A" and nt: "set (alphabet NAT) \<subseteq> A"
    and comma: "CHR '','' \<in> A" and lt: "\<And>k. letter k \<in> A"
  shows "set (token_text t) \<subseteq> A"
proof (cases t)
  case (Tok1 k w1 w2)
  with assms(1) accepts_alphabet [of SREAL w1] accepts_alphabet [of NAT w2] sr nt comma lt [of k]
  show ?thesis by auto
next
  case (TokB w1 w2 w3)
  with assms(1) accepts_alphabet [of SREAL w1] accepts_alphabet [of NAT w2]
    accepts_alphabet [of NAT w3] sr nt comma lt [of KB]
  show ?thesis by auto
qed

lemma token_alphabet:
  assumes "token_ok t" and "c \<in> set (token_text t)"
  shows "c \<in> set ''SRCLB,+-0123456789.eE''"
proof -
  have "set (token_text t) \<subseteq> set ''SRCLB,+-0123456789.eE''"
  proof (rule token_text_subset [OF assms(1)])
    show "set (alphabet SREAL) \<subseteq> set ''SRCLB,+-0123456789.eE''"
      by (simp add: SREAL_def REAL_def digit_def Plus_def)
    show "set (alphabet NAT) \<subseteq> set ''SRCLB,+-0123456789.eE''"
      by (simp add: NAT_def digit_def)
    show "CHR '','' \<in> set ''SRCLB,+-0123456789.eE''" by simp
    show "letter k \<in> set ''SRCLB,+-0123456789.eE''" for k by (cases k) simp_all
  qed
  with assms(2) show ?thesis by (rule subsetD [rotated])
qed

lemma alphabet_not_space: "c \<in> set ''SRCLB,+-0123456789.eE'' \<Longrightarrow> \<not> isspace c"
  by (simp add: isspace_def) (elim disjE; simp)

lemma tokens_no_space:
  assumes "list_all token_ok ts" and "c \<in> set (concat (map token_text ts))"
  shows "\<not> isspace c"
proof -
  from assms(2) obtain t where "t \<in> set ts" "c \<in> set (token_text t)" by auto
  moreover with assms(1) have "token_ok t" by (simp add: list_all_iff)
  ultimately show ?thesis by (intro alphabet_not_space token_alphabet)
qed

lemma strip_no_space:
  assumes "\<forall>c \<in> set s. \<not> isspace c"
  shows "strip s = s" and "\<not> list_ex isspace s"
proof -
  have "dropWhile isspace xs = xs" if "\<forall>c \<in> set xs. \<not> isspace c" for xs
    using that by (cases xs) simp_all
  from this [of s] this [of "rev s"] assms show "strip s = s" by (simp add: strip_def)
  from assms show "\<not> list_ex isspace s" by (simp add: list_ex_iff)
qed

lemma parse_input_tokens:
  assumes "list_all token_ok ts"
  shows "\<exists>x. parse_input (concat (map token_text ts)) = Inr (group_by_tag x, x)
    \<and> map Inr x = map token_item ts"
proof -
  let ?s = "concat (map token_text ts)"
  from tokens_no_space [OF assms] have ns: "\<forall>c \<in> set ?s. \<not> isspace c" by blast
  from parse_loop_complete [OF assms, of 0 ?s empty_data "[]"] obtain data x
    where pl: "parse_loop ?s 0 empty_data [] = Inr (data, x)" and x: "map Inr x = map token_item ts"
    by auto
  from parse_loop_invariant [OF pl] have "data = group_by_tag x" by simp
  with pl x strip_no_space [OF ns] show ?thesis by (auto simp: parse_input_def)
qed

section \<open>Where the loop gives up\<close>

lemma parse_loop_error_tokens:
  assumes "parse_loop s pos data x = Inl (InvalidToken p w)" and "pos \<le> length s"
  shows "\<exists>ts. list_all token_ok ts \<and> drop pos s = concat (map token_text ts) @ drop p s
    \<and> p < length s \<and> w = slice s p (p + 12) \<and> first_match regexes s p = None"
  using assms
proof (induction s pos data x rule: parse_loop.induct)
  case (1 s pos data x)
  from "1.prems" have lt: "pos < length s"
    by (auto simp: parse_loop.simps [of s pos] split: if_splits)
  show ?case
  proof (cases "first_match regexes s pos")
    case None
    with "1.prems" lt have "p = pos" "w = slice s pos (pos + 12)"
      by (auto simp: parse_loop.simps [of s pos])
    with None lt show ?thesis by (intro exI [of _ "[]"]) simp
  next
    case (Some kge)
    obtain k g e where kge: "kge = (k, g, e)" by (cases kge)
    note fm = Some [unfolded kge]
    from first_match_convert [OF fm] obtain item where cv: "convert k g = Inr item" ..
    from "1.prems" lt fm cv
    have rest: "parse_loop s e (data_append data k (payload_of item)) (x @ [item])
        = Inl (InvalidToken p w)"
      by (simp add: parse_loop.simps [of s pos])
    from first_match_regexes_advances [OF fm lt] have e: "e \<le> length s" by simp
    from first_match_token [OF fm "1.prems"(2)] obtain t where t: "token_ok t"
      "drop pos s = token_text t @ drop e s"
      by blast
    from "1.IH" [OF lt Some [unfolded kge] refl refl cv rest e] obtain ts
      where "list_all token_ok ts" "drop e s = concat (map token_text ts) @ drop p s"
        "p < length s" "w = slice s p (p + 12)" "first_match regexes s p = None"
      by blast
    with t show ?thesis by (intro exI [of _ "t # ts"]) simp
  qed
qed

section \<open>Properties\<close>

text \<open>
  \<^bold>\<open>C7\<close> (functional). The parser is sound for the grammar of the tokens. An input
  that \<open>parse_input\<close> accepts is, once stripped, the concatenation of the texts of
  tokens of the grammar, each a letter, a signed real, a comma and one or two natural
  numbers, and the list \<open>x\<close> holds the tuples of exactly these tokens, in the order of
  the text.
\<close>

theorem parse_input_sound:
  assumes "parse_input str = Inr (data, x)"
  shows "\<exists>ts. strip str = concat (map token_text ts) \<and> list_all token_ok ts
    \<and> map token_item ts = map Inr x"
  using parse_loop_tokens [OF parse_input_Inr(2) [OF assms]] by auto

theorem parse_input_sound_witness:
  "\<exists>ts. strip '' L3,1B-2.5,2,5 '' = concat (map token_text ts) \<and> list_all token_ok ts
     \<and> map token_item ts = map Inr [Item1 KL 3 1, ItemB (- 25/10) 2 5]"
proof -
  have "parse_input '' L3,1B-2.5,2,5 ''
      = Inr (group_by_tag [Item1 KL 3 1, ItemB (- 25/10) 2 5], [Item1 KL 3 1, ItemB (- 25/10) 2 5])"
    by (simp add: parser_eval data_eval)
  from parse_input_sound [OF this] show ?thesis .
qed

text \<open>
  \<^bold>\<open>C8\<close> (roundtrip). The parser is complete for the grammar: the concatenation of
  the texts of any tokens of the grammar is accepted, and parsing it gives back the
  tuples of these tokens, in order, with the dictionary that groups them. Written out and
  parsed again, a circuit is the same circuit.
\<close>

theorem parse_input_complete:
  assumes "list_all token_ok ts"
  shows "\<exists>x. parse_input (concat (map token_text ts)) = Inr (group_by_tag x, x)
    \<and> map Inr x = map token_item ts"
  using assms by (rule parse_input_tokens)

theorem parse_input_complete_witness:
  "list_all token_ok [Tok1 KL ''3'' ''1'', TokB ''-2.5e0'' ''2'' ''15''] \<and>
   (\<exists>x. parse_input ''L3,1B-2.5e0,2,15'' = Inr (group_by_tag x, x)
      \<and> map Inr x = map token_item [Tok1 KL ''3'' ''1'', TokB ''-2.5e0'' ''2'' ''15''])"
proof -
  have "accepts SREAL ''3''"
    using accepts_SREAL_I [of "[]" "''3''" "[]" "[]" "[]"]
    by (simp add: mantissa_def exp_tail_def is_digit_def)
  moreover have "exp_tail ''e0''"
    using exp_tail_I [of "CHR ''e''" "[]" "''0''"] by (simp add: is_digit_def)
  then have "accepts SREAL ''-2.5e0''"
    using accepts_SREAL_I [of "''-''" "''2''" "''.''" "''5''" "''e0''"]
    by (simp add: mantissa_def is_digit_def)
  moreover have "accepts NAT ''1''" "accepts NAT ''2''" "accepts NAT ''15''"
    by (simp_all add: accepts_NAT is_digit_def)
  ultimately have ok: "list_all token_ok [Tok1 KL ''3'' ''1'', TokB ''-2.5e0'' ''2'' ''15'']"
    by simp
  from parse_input_complete [OF ok] ok show ?thesis by simp
qed

text \<open>
  \<^bold>\<open>C16\<close> (equivalence). The inputs that \<open>parse_input\<close> accepts are exactly the
  strings that, once stripped, are sequences of tokens of the grammar.
\<close>

theorem parse_input_language:
  "(\<exists>data x. parse_input str = Inr (data, x))
     \<longleftrightarrow> (\<exists>ts. list_all token_ok ts \<and> strip str = concat (map token_text ts))"
proof
  assume "\<exists>data x. parse_input str = Inr (data, x)"
  then obtain data x where "parse_input str = Inr (data, x)" by blast
  from parse_loop_tokens [OF parse_input_Inr(2) [OF this]] show
    "\<exists>ts. list_all token_ok ts \<and> strip str = concat (map token_text ts)"
    by auto
next
  assume "\<exists>ts. list_all token_ok ts \<and> strip str = concat (map token_text ts)"
  then obtain ts where ts: "list_all token_ok ts" "strip str = concat (map token_text ts)" by blast
  from parse_input_tokens [OF ts(1)] ts(2) have "\<exists>x. parse_input (strip str) = Inr (group_by_tag x, x)"
    by auto
  then show "\<exists>data x. parse_input str = Inr (data, x)" by auto
qed

text \<open>
  \<^bold>\<open>C27\<close> (error). The position in the exception for an invalid token is exact. The
  stripped input up to that position is a sequence of tokens of the grammar, the snippet
  is the twelve characters from it, and no token of the grammar starts there that is
  followed by the end of the input or by the letter of another token.
\<close>

theorem parse_input_error_position:
  assumes "parse_input str = Inl (InvalidToken p w)"
  shows "\<exists>ts. list_all token_ok ts \<and> take p (strip str) = concat (map token_text ts)
    \<and> p < length (strip str) \<and> w = slice (strip str) p (p + 12)
    \<and> (\<forall>t rest. token_ok t \<and> follows rest \<longrightarrow> drop p (strip str) \<noteq> token_text t @ rest)"
proof -
  let ?s = "strip str"
  from assms have "parse_loop ?s 0 empty_data [] = Inl (InvalidToken p w)"
    by (simp add: parse_input_def Let_def split: if_splits)
  from parse_loop_error_tokens [OF this] obtain ts where ts: "list_all token_ok ts"
    and s: "?s = concat (map token_text ts) @ drop p ?s" and p: "p < length ?s"
    and w: "w = slice ?s p (p + 12)" and none: "first_match regexes ?s p = None"
    by auto
  from s have "length ?s = length (concat (map token_text ts)) + (length ?s - p)"
    by (metis length_append length_drop)
  with p have "length (concat (map token_text ts)) = p" by linarith
  with s have "take p ?s = concat (map token_text ts)" by (metis append_eq_conv_conj)
  moreover have "drop p ?s \<noteq> token_text t @ rest" if "token_ok t" "follows rest" for t rest
    using first_match_token_text [OF that, of p ?s] none by auto
  ultimately show ?thesis using ts p w by blast
qed

theorem parse_input_error_position_witness:
  "parse_input ''S1.2,3L0.5,'' = Inl (InvalidToken 6 ''L0.5,'') \<and>
   (\<exists>ts. list_all token_ok ts \<and> take 6 (strip ''S1.2,3L0.5,'') = concat (map token_text ts))"
proof -
  have p: "parse_input ''S1.2,3L0.5,'' = Inl (InvalidToken 6 ''L0.5,'')"
    by (simp add: parser_eval)
  from parse_input_error_position [OF p] p show ?thesis by blast
qed

text \<open>
  \<^bold>\<open>C15\<close> (functional). Which numeral becomes which field of a tuple. For a token
  of the grammar, the real after the letter is the parameter, the natural number after
  the first comma is the first mode and, for the letter \<open>B\<close>, the one after the second
  comma the second mode: the tuple is built from what \<open>_to_real\<close> and \<open>_to_nat\<close>
  return on these numerals, in this order, and carries the token's letter as its tag.
  The conversions succeed and the modes are at least 1.
\<close>

theorem token_item_fields:
  assumes "token_ok t"
  shows "case t of
      Tok1 k w1 w2 \<Rightarrow> \<exists>v m. to_real w1 = Inr v \<and> to_nat w2 = Inr m \<and> 1 \<le> m
        \<and> token_item t = Inr (Item1 k v m)
    | TokB w1 w2 w3 \<Rightarrow> \<exists>v a b. to_real w1 = Inr v \<and> to_nat w2 = Inr a \<and> to_nat w3 = Inr b
        \<and> 1 \<le> a \<and> 1 \<le> b \<and> token_item t = Inr (ItemB v a b)"
proof (cases t)
  case (Tok1 k w1 w2)
  with assms have k: "k \<in> {KS, KR, KC, KL}" and ok: "accepts SREAL w1" "accepts NAT w2"
    by (cases k; simp)+
  from to_real_SREAL [OF ok(1)] obtain v where v: "to_real w1 = Inr v" ..
  from py_int_NAT [OF ok(2)] obtain m where m: "to_nat w2 = Inr m" "1 \<le> m"
    by (auto simp: to_nat_def)
  with Tok1 k v show ?thesis by (simp add: token_item_def convert_def match_group_def)
next
  case (TokB w1 w2 w3)
  with assms have ok: "accepts SREAL w1" "accepts NAT w2" "accepts NAT w3" by simp_all
  from to_real_SREAL [OF ok(1)] obtain v where v: "to_real w1 = Inr v" ..
  from py_int_NAT [OF ok(2)] obtain a where a: "to_nat w2 = Inr a" "1 \<le> a"
    by (auto simp: to_nat_def)
  from py_int_NAT [OF ok(3)] obtain b where b: "to_nat w3 = Inr b" "1 \<le> b"
    by (auto simp: to_nat_def)
  with TokB v a show ?thesis by (simp add: token_item_def convert_def match_group_def)
qed

theorem token_item_fields_witness:
  "token_ok (TokB ''-2.5'' ''2'' ''15'') \<and> token_item (TokB ''-2.5'' ''2'' ''15'') = Inr (ItemB (- 5/2) 2 15)"
proof -
  have "accepts SREAL ''-2.5''"
    using accepts_SREAL_I [of "''-''" "''2''" "''.''" "''5''" "[]"]
    by (simp add: mantissa_def is_digit_def exp_tail_def)
  moreover have "accepts NAT ''2''" "accepts NAT ''15''"
    by (simp_all add: accepts_NAT is_digit_def)
  ultimately have ok: "token_ok (TokB ''-2.5'' ''2'' ''15'')" by simp
  have "to_real ''-2.5'' = Inr (- 5/2)" "to_nat ''2'' = Inr 2" "to_nat ''15'' = Inr 15"
    by (simp_all add: numeral_eval)
  with token_item_fields [OF ok] ok show ?thesis by simp
qed

end
