(* ===== verification/QPD_Conversions.thy ===== *)
theory QPD_Conversions
  imports QPD_Grammar
begin

text \<open>
  Python's \<open>float\<close> and \<open>int\<close> on arbitrary strings. The script of
  \<^verbatim>\<open>src/s-QPDs.py\<close> applies \<open>float\<close> to every piece of a line the user types
  (lines 133 and 161) and compares the values it returns (lines 135 and 172);
  \<open>_to_real\<close> and \<open>_to_nat\<close> apply \<open>float\<close> and \<open>int\<close> to what the patterns
  have captured (lines 15 and 21). Beyond the decimal numerals that \<open>py_float\<close> and
  \<open>py_int\<close> read, the conversions strip whitespace from both ends and allow one
  underscore between two digits; \<open>float\<close> reads \<open>inf\<close>, \<open>infinity\<close> and \<open>nan\<close>
  in any case, with a sign; \<open>int\<close> refuses a numeral of more digits than the
  interpreter's limit (\<open>sys.set_int_max_str_digits\<close>: 4300 by default since Python
  3.11, 0 for no limit, and never a value between 1 and 639). A float is a real number, one of the two infinities, or the one
  NaN; a comparison with NaN is false. Finite values are exact reals: the rounding to a
  double, and with it the overflow of a large literal to an infinity, is left out. The
  lemmas show that on the strings the patterns of the parser capture the conversions
  are \<open>py_float\<close> and, up to the limit on the digits, \<open>py_int\<close>, and what the range
  check of the script and its comparison make of the values that are not numbers.
\<close>

section \<open>Values and comparisons\<close>

datatype pyfloat = Finite (finite_value: real) | PosInf | NegInf | NaN

text \<open>\<open>x <= y\<close> on floats; \<open>x >= y\<close> is \<open>float_le y x\<close>.\<close>

fun float_le :: "pyfloat \<Rightarrow> pyfloat \<Rightarrow> bool" where
  "float_le NaN y = False"
| "float_le x NaN = False"
| "float_le NegInf y = True"
| "float_le x PosInf = True"
| "float_le (Finite a) (Finite b) = (a \<le> b)"
| "float_le x y = False"

text \<open>The chained comparison \<open>-1 <= x <= 1\<close> of line 135.\<close>

definition float_in_range :: "pyfloat \<Rightarrow> bool" where
  "float_in_range x \<longleftrightarrow> float_le (Finite (- 1)) x \<and> float_le x (Finite 1)"

section \<open>The conversion\<close>

text \<open>Letters are compared without regard to case.\<close>

definition lower :: "char \<Rightarrow> char" where
  "lower c =
     (case map_of (zip ''ABCDEFGHIJKLMNOPQRSTUVWXYZ'' ''abcdefghijklmnopqrstuvwxyz'') c of
        None \<Rightarrow> c
      | Some l \<Rightarrow> l)"

text \<open>
  The underscores are taken out before the number is read. Each must stand between two
  digits; the flag says whether the previous character was a digit.
\<close>

fun del_underscores :: "bool \<Rightarrow> string \<Rightarrow> string option" where
  "del_underscores d [] = Some []"
| "del_underscores d (c # cs) =
     (if c = CHR ''_'' then
        (case cs of
           [] \<Rightarrow> None
         | c' # r \<Rightarrow> if d \<and> is_digit c' then del_underscores False cs else None)
      else map_option ((#) c) (del_underscores (is_digit c) cs))"

definition float :: "string \<Rightarrow> pyfloat option" where
  "float x =
     (let s = strip x;
          (sg, r) = split_sign s;
          w = map lower r
      in if w = ''inf'' \<or> w = ''infinity'' then Some (if sg = - 1 then NegInf else PosInf)
         else if w = ''nan'' then Some NaN
         else case del_underscores False s of
             None \<Rightarrow> None
           | Some d \<Rightarrow> map_option Finite (py_float d))"

text \<open>\<open>int\<close> on a string, for an interpreter with the given limit on the digits.\<close>

definition int_str :: "nat \<Rightarrow> string \<Rightarrow> int option" where
  "int_str max_str_digits x =
     (case del_underscores False (strip x) of
        None \<Rightarrow> None
      | Some d \<Rightarrow>
          if 0 < max_str_digits \<and> max_str_digits < length (filter is_digit d) then None
          else py_int d)"

lemmas float_eval = float_def strip_def isspace_def lower_def numeral_eval

section \<open>Comparisons\<close>

fun_cases float_le_FiniteE: "float_le (Finite r) x"
  and float_le_toFiniteE: "float_le x (Finite r)"

lemma float_le_Finite_iff:
  "float_le (Finite r) x \<longleftrightarrow> x = PosInf \<or> (\<exists>u. x = Finite u \<and> r \<le> u)"
  "float_le x (Finite r) \<longleftrightarrow> x = NegInf \<or> (\<exists>u. x = Finite u \<and> u \<le> r)"
  by (auto elim: float_le_FiniteE float_le_toFiniteE)

lemma float_in_range_iff: "float_in_range x \<longleftrightarrow> (\<exists>r. x = Finite r \<and> in_range r)"
  by (auto simp: float_in_range_def float_le_Finite_iff in_range_def)

lemma float_in_range_value:
  "float_in_range x \<longleftrightarrow> Finite (finite_value x) = x \<and> in_range (finite_value x)"
  by (cases x) (simp_all add: float_in_range_iff)

lemma float_in_range_values:
  "list_all float_in_range xs \<longleftrightarrow>
     map Finite (map finite_value xs) = xs \<and> all_in_range (map finite_value xs)"
  by (induction xs) (auto simp: float_in_range_value)

lemma not_float_ge_iff:
  "\<not> float_le (Finite r) x \<longleftrightarrow> x = NaN \<or> x = NegInf \<or> (\<exists>u. x = Finite u \<and> u < r)"
  by (cases x) (auto simp: float_le_Finite_iff)

section \<open>Strings without whitespace, underscores and letters\<close>

lemma del_underscores_id: "CHR ''_'' \<notin> set s \<Longrightarrow> del_underscores d s = Some s"
  by (induction s arbitrary: d) auto

lemma numeral_char:
  assumes "c \<in> set ''+-0123456789.eE''"
  shows "\<not> isspace c" and "c \<noteq> CHR ''_''" and "lower c \<noteq> CHR ''n''"
  using assms by (simp, elim disjE; simp add: isspace_def lower_def)+

lemma set_split_sign: "set (snd (split_sign s)) \<subseteq> set s"
  by (cases s) auto

lemma float_plain:
  assumes sp: "\<forall>c \<in> set s. \<not> isspace c" and us: "CHR ''_'' \<notin> set s"
    and lt: "\<forall>c \<in> set s. lower c \<noteq> CHR ''n''"
  shows "float s = map_option Finite (py_float s)"
proof -
  obtain sg r where split: "split_sign s = (sg, r)" by (cases "split_sign s")
  with lt set_split_sign [of s] have "CHR ''n'' \<notin> set (map lower r)" by fastforce
  then have "map lower r \<noteq> ''inf''" "map lower r \<noteq> ''infinity''" "map lower r \<noteq> ''nan''"
    by auto
  then show ?thesis
    by (simp add: float_def strip_no_space(1) [OF sp] del_underscores_id [OF us] split)
qed

lemma digit_numeral_char: "is_digit c \<Longrightarrow> c \<in> set ''+-0123456789.eE''"
  by (auto simp: is_digit_def)

lemma int_str_digits:
  assumes "list_all is_digit w"
  shows "int_str n w = (if 0 < n \<and> n < length w then None else py_int w)"
proof -
  have c: "c \<in> set ''+-0123456789.eE''" if "c \<in> set w" for c
  proof (rule digit_numeral_char)
    from assms that show "is_digit c" by (simp only: list_all_iff)
  qed
  have "\<forall>c \<in> set w. \<not> isspace c" by (intro ballI numeral_char(1) c)
  then have "strip w = w" by (rule strip_no_space)
  moreover have "CHR ''_'' \<notin> set w" using c [THEN numeral_char(2)] by blast
  then have "del_underscores False w = Some w" by (rule del_underscores_id)
  moreover from assms have "filter is_digit w = w" by (simp add: list_all_iff)
  ultimately show ?thesis by (simp add: int_str_def)
qed

section \<open>Properties\<close>

text \<open>
  \<^bold>\<open>C31\<close> (equivalence). On every string that the patterns of the parser capture as a
  real, the full conversion of Python is the reader of decimal literals: \<open>float\<close>
  returns a finite value, never an infinity or NaN, and it is the value \<open>_to_real\<close>
  returns.
\<close>

theorem float_literal:
  assumes "accepts SREAL w"
  shows "\<exists>v. float w = Some (Finite v) \<and> to_real w = Inr v"
proof -
  from to_real_SREAL [OF assms] obtain v where v: "to_real w = Inr v" ..
  have "set (alphabet SREAL) \<subseteq> set ''+-0123456789.eE''"
    by (simp add: SREAL_def REAL_def digit_def Plus_def)
  with accepts_alphabet [OF assms] have "set w \<subseteq> set ''+-0123456789.eE''" by (rule subset_trans)
  then have c: "c \<in> set ''+-0123456789.eE''" if "c \<in> set w" for c using that by (rule subsetD)
  have "float w = map_option Finite (py_float w)"
  proof (rule float_plain)
    show "\<forall>c \<in> set w. \<not> isspace c" by (intro ballI numeral_char(1) c)
    show "CHR ''_'' \<notin> set w" using c [THEN numeral_char(2)] by blast
    show "\<forall>c \<in> set w. lower c \<noteq> CHR ''n''" by (intro ballI numeral_char(3) c)
  qed
  with v show ?thesis by (auto simp: to_real_def split: option.splits)
qed

theorem float_literal_witness:
  "accepts SREAL ''-2.5e1'' \<and> float ''-2.5e1'' = Some (Finite (- 25)) \<and> to_real ''-2.5e1'' = Inr (- 25)"
proof -
  have "exp_tail ''e1''"
    using exp_tail_I [of "CHR ''e''" "[]" "''1''"] by (simp add: is_digit_def)
  then have a: "accepts SREAL ''-2.5e1''"
    using accepts_SREAL_I [of "''-''" "''2''" "''.''" "''5''" "''e1''"]
    by (simp add: mantissa_def is_digit_def)
  have "to_real ''-2.5e1'' = Inr (- 25)" by (simp add: numeral_eval)
  with float_literal [of "''-2.5e1''"] a show ?thesis by auto
qed

text \<open>
  \<^bold>\<open>C32\<close> (equivalence). On every string that the patterns capture as a natural
  number, \<open>int\<close> is the reader of decimal numerals, and returns a value of at least 1,
  unless the numeral has more digits than the interpreter's limit: then \<open>int\<close>
  raises, and \<open>_to_nat\<close> reports an invalid natural number for a string of digits.
\<close>

theorem int_literal:
  assumes "accepts NAT w"
  shows "int_str n w = (if 0 < n \<and> n < length w then None else py_int w)
    \<and> (\<exists>v. py_int w = Some v \<and> 1 \<le> v \<and> to_nat w = Inr v)"
proof -
  from assms obtain d ds where "w = d # ds" "d \<in> set ''123456789''" "list_all is_digit ds"
    unfolding accepts_NAT by blast
  with nonzero_digit(2) [of d] have "list_all is_digit w" by simp
  with int_str_digits py_int_NAT [OF assms] show ?thesis by (auto simp: to_nat_def)
qed

theorem int_literal_witness:
  "accepts NAT ''15'' \<and> int_str 4300 ''15'' = Some 15 \<and> to_nat ''15'' = Inr 15
   \<and> int_str 4300 '' 1_5 '' = Some 15"
proof -
  have a: "accepts NAT ''15''" by (simp add: accepts_NAT is_digit_def)
  have "py_int ''15'' = Some 15" "int_str 4300 '' 1_5 '' = Some 15"
    by (simp_all add: int_str_def float_eval)
  with int_literal [OF a, of 4300] a show ?thesis by simp
qed

end
