(* ===== verification/QPD_Process.thy ===== *)
theory QPD_Process
  imports QPD_Parser QPD_Engine
begin

text \<open>
  \<open>process_list\<close> of \<^verbatim>\<open>src/s-QPDs.py\<close> (lines 98--123) as a whole: the circuit is
  parsed, the loop runs over the tuples, and the list that was passed in is returned. A
  parse error leaves the list untouched; an error of the loop leaves it as the failing
  gate left it. A call that returns has kept the length of the list and its range.
\<close>

section \<open>Definition\<close>

definition process_list :: "string \<Rightarrow> (svec, svec) prog" where
  "process_list circuit =
     (\<lambda>s_in. case parse_input circuit of
        Inl e \<Rightarrow> (s_in, Inl e)
      | Inr (data, x) \<Rightarrow> sbind (process_items 0 x) (\<lambda>_ s. (s, Inr s)) s_in)"

section \<open>Lemmas\<close>

lemma process_list_parse_error:
  "parse_input circuit = Inl e \<Longrightarrow> process_list circuit s_in = (s_in, Inl e)"
  by (simp add: process_list_def)

lemma process_list_parsed:
  "parse_input circuit = Inr (data, x) \<Longrightarrow>
   process_list circuit s_in =
     (case process_items 0 x s_in of (s', Inl e) \<Rightarrow> (s', Inl e) | (s', Inr u) \<Rightarrow> (s', Inr s'))"
  by (simp add: process_list_def sbind_def split: prod.splits sum.splits)

lemma process_list_returns_store: "process_list circuit s_in = (s', Inr r) \<Longrightarrow> r = s'"
  by (auto simp: process_list_def sbind_def split: sum.splits prod.splits)

lemma length_process_list [simp]: "length (fst (process_list circuit s_in)) = length s_in"
proof (cases "parse_input circuit")
  case (Inl e)
  then show ?thesis by (simp add: process_list_parse_error)
next
  case (Inr dx)
  obtain data x where "dx = (data, x)" by (cases dx)
  with Inr have "fst (process_list circuit s_in) = fst (process_items 0 x s_in)"
    by (auto simp: process_list_parsed split: prod.splits sum.splits)
  then show ?thesis by simp
qed

lemma process_list_success:
  assumes "all_in_range s_in" and "process_list circuit s_in = (s', Inr r)"
  shows "r = s' \<and> length r = length s_in \<and> all_in_range r"
proof (cases "parse_input circuit")
  case (Inl e)
  with assms(2) show ?thesis by (simp add: process_list_parse_error)
next
  case (Inr dx)
  obtain data x where dx: "dx = (data, x)" by (cases dx)
  obtain s1 r1 where run: "process_items 0 x s_in = (s1, r1)" by (cases "process_items 0 x s_in")
  from assms(2) Inr dx run have "r1 = Inr ()" "s' = s1" "r = s1"
    by (auto simp: process_list_parsed split: sum.splits)
  with run process_items_in_range [OF assms(1), of 0 x s1 "()"] length_process_items [of 0 x s_in]
  show ?thesis by simp
qed

end
