(* ===== verification/QPD_Script.thy ===== *)
theory QPD_Script
  imports QPD_Process QPD_Conversions
begin

text \<open>
  The script at the end of \<^verbatim>\<open>src/s-QPDs.py\<close> (lines 126--179). It asks for the
  initial vector until it gets one with all entries in \<open>[-1, 1]\<close>, prints the number of
  modes, runs \<open>process_list\<close> on its hard-wired circuit, asks for a second vector of the
  same length, and prints whether every entry of the second is below the corresponding
  entry of the result. The console is a record of the lines still to be read and the
  messages printed so far; a message is a constructor carrying the values it prints, and
  the prompts are left out. The lemmas describe every way the script can end, what it
  has printed by then, and the inputs on which it reaches its verdict. The conversion of what the user types is a parameter
  \<open>fl\<close> of the definitions, so the lemmas hold for every conversion function that
  returns a number, an infinity or NaN, or fails; the script is \<open>script float\<close>.
  The first loop lets no infinity and no NaN through, the second does.
\<close>

section \<open>Definitions\<close>

text \<open>\<open>invalid_values = [x for x in s_in if not (-1 <= x <= 1)]\<close>.\<close>

definition invalid_values :: "pyfloat list \<Rightarrow> pyfloat list" where
  "invalid_values s_in = filter (\<lambda>x. \<not> float_in_range x) s_in"

text \<open>The circuit of the script.\<close>

definition test :: string where
  "test = ''S1.2,3R-0.5,2C0.0,4L3,1B-2.5,2,5''"

text \<open>
  The comparison loop: \<open>all_less\<close> starts as \<open>True\<close> and the loop over
  \<open>zip(user_params, result)\<close> sets it to \<open>False\<close> and stops at the first pair with
  \<open>user_param >= result_param\<close>.
\<close>

fun all_less :: "pyfloat list \<Rightarrow> svec \<Rightarrow> bool" where
  "all_less (user_param # user_params) (result_param # result) =
     (if float_le (Finite result_param) user_param then False else all_less user_params result)"
| "all_less user_params result = True"

section \<open>The console\<close>

datatype message =
    AtLeastOneValue
  | ValidNumbers
  | MustBeInRange "pyfloat list"
  | NumberOfModes nat
  | BestParameters svec
  | Failure error
  | WrongLength nat
  | Possible
  | NotPossible

record console =
  stdin :: "string list"
  stdout :: "message list"

definition print :: "message \<Rightarrow> (console, unit) prog" where
  "print m = (\<lambda>c. (c\<lparr>stdout := stdout c @ [m]\<rparr>, Inr ()))"

text \<open>\<open>s.split(',')\<close>: the pieces between the commas, at least one.\<close>

fun split_on :: "char \<Rightarrow> string \<Rightarrow> string list" where
  "split_on c [] = [[]]"
| "split_on c (x # xs) =
     (if x = c then [] # split_on c xs
      else (case split_on c xs of [] \<Rightarrow> [[x]] | w # ws \<Rightarrow> (x # w) # ws))"

text \<open>\<open>[float(x) for x in s.split(',')]\<close>; \<open>None\<close> is the \<open>ValueError\<close> of \<open>float\<close>.\<close>

definition floats :: "(string \<Rightarrow> pyfloat option) \<Rightarrow> string \<Rightarrow> pyfloat list option" where
  "floats fl s = those (map fl (split_on CHR '','' s))"

section \<open>The two input loops\<close>

text \<open>
  One pass through the body of a \<open>while True\<close> loop after its \<open>input\<close>: it prints a
  message and goes round again, or leaves the loop by \<open>break\<close>, or raises.
\<close>

datatype 'a iter = is_Retry: Retry (answer: message) | Break 'a | Raise error

text \<open>
  The loop: \<open>input\<close> raises \<open>EOFError\<close> when no line is left. Every iteration
  consumes a line, which is why the loop ends.
\<close>

function ask :: "(string \<Rightarrow> 'a iter) \<Rightarrow> (console, 'a) prog" where
  "ask body c =
     (case stdin c of
        [] \<Rightarrow> (c, Inl EOFError)
      | l # ls \<Rightarrow>
          (case body l of
             Retry m \<Rightarrow> ask body (c\<lparr>stdin := ls, stdout := stdout c @ [m]\<rparr>)
           | Break v \<Rightarrow> (c\<lparr>stdin := ls\<rparr>, Inr v)
           | Raise e \<Rightarrow> (c\<lparr>stdin := ls\<rparr>, Inl e)))"
  by pat_completeness auto
termination
  by (relation "measure (\<lambda>(body, c). length (stdin c))") simp_all

declare ask.simps [simp del]

text \<open>
  The body of the first loop (lines 129--141). A list that passes the check holds
  numbers only (\<open>float_in_range_values\<close>); it leaves the loop as the list of reals
  that the circuit is run on.
\<close>

definition s_in_body :: "(string \<Rightarrow> pyfloat option) \<Rightarrow> string \<Rightarrow> svec iter" where
  "s_in_body fl s_in_input =
     (if s_in_input = [] then Retry AtLeastOneValue
      else case floats fl s_in_input of
          None \<Rightarrow> Retry ValidNumbers
        | Some s_in \<Rightarrow>
            if invalid_values s_in \<noteq> [] then Retry (MustBeInRange (invalid_values s_in))
            else Break (map finite_value s_in))"

text \<open>
  The run of the circuit (lines 147--152). \<open>result\<close> is bound only if \<open>process_list\<close>
  returns; a \<open>ValueError\<close> is printed, any other exception leaves the script.
\<close>

definition run_test :: "svec \<Rightarrow> (console, svec option) prog" where
  "run_test s_in =
     (case process_list test s_in of
        (s', Inr result) \<Rightarrow> sbind (print (BestParameters result)) (\<lambda>_. sreturn (Some result))
      | (s', Inl e) \<Rightarrow>
          if is_ValueError e then sbind (print (Failure e)) (\<lambda>_. sreturn None)
          else sraise (\<lambda>_. e))"

text \<open>
  The body of the second loop (lines 157--167). The conversion comes first, so a line
  that does not convert is answered with a message even when \<open>result\<close> is unbound;
  \<open>len(result)\<close> then raises \<open>NameError\<close>.
\<close>

definition params_body ::
  "(string \<Rightarrow> pyfloat option) \<Rightarrow> svec option \<Rightarrow> string \<Rightarrow> (pyfloat list \<times> svec) iter" where
  "params_body fl result user_params_input =
     (if user_params_input = [] then Retry AtLeastOneValue
      else case floats fl user_params_input of
          None \<Rightarrow> Retry ValidNumbers
        | Some user_params \<Rightarrow>
            (case result of
               None \<Rightarrow> Raise NameError
             | Some r \<Rightarrow>
                 if length user_params \<noteq> length r then Retry (WrongLength (length r))
                 else Break (user_params, r)))"

text \<open>The verdict (lines 176--179).\<close>

definition verdict :: "pyfloat list \<Rightarrow> svec \<Rightarrow> message" where
  "verdict user_params result = (if all_less user_params result then Possible else NotPossible)"

text \<open>The script from the line that prints the number of modes (lines 144--179).\<close>

definition script_tail :: "(string \<Rightarrow> pyfloat option) \<Rightarrow> svec \<Rightarrow> (console, unit) prog" where
  "script_tail fl s_in =
     sbind (print (NumberOfModes (length s_in))) (\<lambda>_.
     sbind (run_test s_in) (\<lambda>result.
     sbind (ask (params_body fl result)) (\<lambda>(user_params, r).
     print (verdict user_params r))))"

text \<open>The script.\<close>

definition script :: "(string \<Rightarrow> pyfloat option) \<Rightarrow> (console, unit) prog" where
  "script fl = sbind (ask (s_in_body fl)) (script_tail fl)"

section \<open>Lemmas\<close>

lemma invalid_values_Nil_iff: "invalid_values s_in = [] \<longleftrightarrow> list_all float_in_range s_in"
  by (auto simp: invalid_values_def filter_empty_conv list_all_iff)

lemma all_less_iff:
  "all_less us rs \<longleftrightarrow>
     (\<forall>i < min (length us) (length rs). \<not> float_le (Finite (rs ! i)) (us ! i))"
proof (induction us rs rule: all_less.induct)
  case (1 u us r rs)
  show ?case
  proof (cases "float_le (Finite r) u")
    case True
    then show ?thesis by (auto intro: exI [of _ 0])
  next
    case False
    with 1 show ?thesis by (auto simp: less_Suc_eq_0_disj)
  qed
qed simp_all

lemma parse_input_test:
  "parse_input test = Inr (group_by_tag
      [Item1 KS (12/10) 3, Item1 KR (- 5/10) 2, Item1 KC 0 4, Item1 KL 3 1, ItemB (- 25/10) 2 5],
      [Item1 KS (12/10) 3, Item1 KR (- 5/10) 2, Item1 KC 0 4, Item1 KL 3 1, ItemB (- 25/10) 2 5])"
  by (simp add: test_def parser_eval data_eval)

section \<open>Lemmas on the input loops\<close>

lemma ask_Nil: "stdin c = [] \<Longrightarrow> ask body c = (c, Inl EOFError)"
  by (simp add: ask.simps [of body c])

lemma ask_Cons:
  "stdin c = l # ls \<Longrightarrow>
   ask body c =
     (case body l of
        Retry m \<Rightarrow> ask body (c\<lparr>stdin := ls, stdout := stdout c @ [m]\<rparr>)
      | Break v \<Rightarrow> (c\<lparr>stdin := ls\<rparr>, Inr v)
      | Raise e \<Rightarrow> (c\<lparr>stdin := ls\<rparr>, Inl e))"
  by (simp add: ask.simps [of body c])

text \<open>
  What a loop has done when it is left: it has retried on a prefix of the lines, printing
  one message for each, and has left on the next line, or has run out of lines.
\<close>

lemma ask_outcome:
  assumes "ask body c = (c', r)"
  shows "\<exists>pre ms. length ms = length pre \<and> (\<forall>i < length pre. body (pre ! i) = Retry (ms ! i))
    \<and> stdout c' = stdout c @ ms
    \<and> (stdin c = pre \<and> stdin c' = [] \<and> r = Inl EOFError
       \<or> (\<exists>l. stdin c = pre @ l # stdin c'
            \<and> ((\<exists>v. body l = Break v \<and> r = Inr v) \<or> (\<exists>e. body l = Raise e \<and> r = Inl e))))"
  using assms
proof (induction body c rule: ask.induct)
  case (1 body c)
  show ?case
  proof (cases "stdin c")
    case Nil
    with "1.prems" have "c' = c" "r = Inl EOFError" by (simp_all add: ask_Nil)
    with Nil show ?thesis by (intro exI [of _ "[]"]) simp
  next
    case (Cons l ls)
    show ?thesis
    proof (cases "body l")
      case (Retry m)
      let ?c1 = "c\<lparr>stdin := ls, stdout := stdout c @ [m]\<rparr>"
      from "1.prems" Cons Retry have "ask body ?c1 = (c', r)" by (simp add: ask_Cons)
      from "1.IH" [OF Cons Retry this] obtain pre ms where len: "length ms = length pre"
        and re: "\<forall>i < length pre. body (pre ! i) = Retry (ms ! i)"
        and out: "stdout c' = stdout c @ m # ms"
        and fin: "ls = pre \<and> stdin c' = [] \<and> r = Inl EOFError
          \<or> (\<exists>l'. ls = pre @ l' # stdin c'
               \<and> ((\<exists>v. body l' = Break v \<and> r = Inr v) \<or> (\<exists>e. body l' = Raise e \<and> r = Inl e)))"
        by auto
      have "\<forall>i < length (l # pre). body ((l # pre) ! i) = Retry ((m # ms) ! i)"
        using re Retry by (auto simp: nth_Cons split: nat.splits)
      with len out fin Cons show ?thesis
        by (intro exI [of _ "l # pre"] exI [of _ "m # ms"]) auto
    next
      case (Break v)
      with "1.prems" Cons have "c' = c\<lparr>stdin := ls\<rparr>" "r = Inr v" by (simp_all add: ask_Cons)
      with Cons Break show ?thesis by (intro exI [of _ "[]"]) simp
    next
      case (Raise e)
      with "1.prems" Cons have "c' = c\<lparr>stdin := ls\<rparr>" "r = Inl e" by (simp_all add: ask_Cons)
      with Cons Raise show ?thesis by (intro exI [of _ "[]"]) simp
    qed
  qed
qed

lemma ask_Inr: "ask body c = (c', Inr v) \<Longrightarrow> \<exists>l \<in> set (stdin c). body l = Break v"
  by (drule ask_outcome) auto

lemma ask_Inl:
  "ask body c = (c', Inl e) \<Longrightarrow> e = EOFError \<or> (\<exists>l \<in> set (stdin c). body l = Raise e)"
  by (drule ask_outcome) auto

text \<open>
  The lines that are answered with a message and a new prompt are passed over; the loop
  is left at the first line that is not.
\<close>

lemma ask_retries:
  assumes "stdin c = pre @ rest" and "\<forall>p \<in> set pre. is_Retry (body p)"
  shows "ask body c
    = ask body (c\<lparr>stdin := rest, stdout := stdout c @ map (\<lambda>p. answer (body p)) pre\<rparr>)"
  using assms
proof (induction pre arbitrary: c)
  case Nil
  then have "c\<lparr>stdin := rest, stdout := stdout c\<rparr> = c" by simp
  then show ?case by simp
next
  case (Cons l pre)
  let ?c1 = "c\<lparr>stdin := pre @ rest, stdout := stdout c @ [answer (body l)]\<rparr>"
  from Cons.prems obtain m where "body l = Retry m" by (cases "body l") simp_all
  with Cons.prems(1) have "ask body c = ask body ?c1" by (simp add: ask_Cons)
  also have "\<dots> = ask body (?c1\<lparr>stdin := rest, stdout := stdout ?c1 @ map (\<lambda>p. answer (body p)) pre\<rparr>)"
    using Cons.prems by (intro Cons.IH) simp_all
  finally show ?case by simp
qed

lemma ask_leaves:
  assumes "stdin c = pre @ l # rest" and "\<forall>p \<in> set pre. is_Retry (body p)"
  shows "ask body c =
    (case body l of
       Retry m \<Rightarrow> ask body (c\<lparr>stdin := rest, stdout := stdout c @ map (\<lambda>p. answer (body p)) (pre @ [l])\<rparr>)
     | Break v \<Rightarrow> (c\<lparr>stdin := rest, stdout := stdout c @ map (\<lambda>p. answer (body p)) pre\<rparr>, Inr v)
     | Raise e \<Rightarrow> (c\<lparr>stdin := rest, stdout := stdout c @ map (\<lambda>p. answer (body p)) pre\<rparr>, Inl e))"
  unfolding ask_retries [OF assms] by (simp add: ask_Cons split: iter.splits)

lemma ask_messages:
  assumes "ask body c = (c', r)"
  shows "\<exists>ms. stdout c' = stdout c @ ms \<and> (\<forall>m \<in> set ms. \<exists>l. body l = Retry m)"
proof -
  from ask_outcome [OF assms] obtain pre ms where len: "length ms = length pre"
    and re: "\<forall>i < length pre. body (pre ! i) = Retry (ms ! i)" and out: "stdout c' = stdout c @ ms"
    by blast
  from len re have "\<forall>m \<in> set ms. \<exists>l. body l = Retry m" by (metis in_set_conv_nth)
  with out show ?thesis by blast
qed

lemma ask_Break:
  assumes "ask body c = (c', Inr v)"
  shows "\<exists>pre l. stdin c = pre @ l # stdin c' \<and> (\<forall>p \<in> set pre. is_Retry (body p))
    \<and> body l = Break v \<and> stdout c' = stdout c @ map (\<lambda>p. answer (body p)) pre"
proof -
  from ask_outcome [OF assms] obtain pre ms l where len: "length ms = length pre"
    and re: "\<forall>i < length pre. body (pre ! i) = Retry (ms ! i)" and out: "stdout c' = stdout c @ ms"
    and l: "stdin c = pre @ l # stdin c'" "body l = Break v"
    by auto
  from len re have "ms = map (\<lambda>p. answer (body p)) pre"
    by (intro nth_equalityI) simp_all
  moreover from re have "\<forall>p \<in> set pre. is_Retry (body p)"
    by (auto simp: in_set_conv_nth)
  ultimately show ?thesis using l out by blast
qed

text \<open>What the first loop answers to a line it refuses.\<close>

lemma s_in_body_Retry:
  "is_Retry (s_in_body fl p) \<longleftrightarrow>
     p = [] \<or> floats fl p = None \<or> (\<exists>ys. floats fl p = Some ys \<and> \<not> list_all float_in_range ys)"
  by (auto simp: s_in_body_def invalid_values_Nil_iff split: option.splits)

lemma s_in_body_answer:
  "is_Retry (s_in_body fl p) \<Longrightarrow>
   answer (s_in_body fl p) =
     (if p = [] then AtLeastOneValue
      else case floats fl p of None \<Rightarrow> ValidNumbers
        | Some ys \<Rightarrow> MustBeInRange (filter (\<lambda>x. \<not> float_in_range x) ys))"
  by (auto simp: s_in_body_def invalid_values_def split: option.splits if_splits)

lemma s_in_body_Break:
  "s_in_body fl l = Break s_in \<longleftrightarrow>
     floats fl l = Some (map Finite s_in) \<and> all_in_range s_in \<and> l \<noteq> []"
  by (auto simp: s_in_body_def invalid_values_Nil_iff float_in_range_values comp_def
      split: option.splits)

lemma s_in_body_no_Raise: "s_in_body fl l \<noteq> Raise e"
  by (simp add: s_in_body_def split: option.splits)

lemma params_body_None: "params_body fl None l \<noteq> Break v"
  by (simp add: params_body_def split: option.splits)

lemma params_body_Raise: "params_body fl result l = Raise e \<Longrightarrow> e = NameError \<and> result = None"
  by (auto simp: params_body_def split: if_splits option.splits)

lemma params_body_Break:
  "params_body fl result l = Break (u, r) \<Longrightarrow> result = Some r \<and> length u = length r \<and> floats fl l = Some u"
  by (auto simp: params_body_def split: if_splits option.splits)

lemma split_on_not_Nil [simp]: "split_on c s \<noteq> []"
  by (induction s) (auto split: list.splits)

section \<open>Lemmas on the run of the circuit\<close>

lemma test_short: "length s_in < 4 \<Longrightarrow> process_list test s_in = (s_in, Inl IndexError)"
  unfolding process_list_parsed [OF parse_input_test] by (simp add: gate_eval)

lemma test_success:
  assumes "process_list test s_in = (s', Inr r)"
  shows "6 \<le> length s_in" and "r = s'" and "length r = length s_in"
proof -
  from assms show "6 \<le> length s_in"
    unfolding process_list_parsed [OF parse_input_test]
    by (simp add: gate_eval s_cubic_def in_range_numerals split: if_splits)
  from assms show "r = s'" by (rule process_list_returns_store)
  with assms length_process_list [of test s_in] show "length r = length s_in" by simp
qed

lemma run_test_Some:
  "run_test s_in c = (c', Inr (Some r)) \<longleftrightarrow>
     process_list test s_in = (r, Inr r) \<and> c' = c\<lparr>stdout := stdout c @ [BestParameters r]\<rparr>"
  by (cases "process_list test s_in")
    (auto simp: run_test_def print_def sbind_def sraise_def dest: process_list_returns_store
      split: sum.splits)

lemma run_test_None:
  "run_test s_in c = (c', Inr None) \<longleftrightarrow>
     (\<exists>s' e. process_list test s_in = (s', Inl e) \<and> is_ValueError e
        \<and> c' = c\<lparr>stdout := stdout c @ [Failure e]\<rparr>)"
  by (cases "process_list test s_in")
    (auto simp: run_test_def print_def sbind_def sraise_def split: sum.splits)

lemma run_test_Inl:
  "run_test s_in c = (c', Inl e) \<longleftrightarrow>
     (\<exists>s'. process_list test s_in = (s', Inl e)) \<and> \<not> is_ValueError e \<and> c' = c"
  by (cases "process_list test s_in")
    (auto simp: run_test_def print_def sbind_def sraise_def split: sum.splits)

section \<open>What the script prints\<close>

lemma body_answers:
  "s_in_body fl l = Retry m \<Longrightarrow> m \<noteq> BestParameters res"
  "params_body fl result l = Retry m \<Longrightarrow> m \<noteq> BestParameters res"
  by (auto simp: s_in_body_def params_body_def split: if_splits option.splits)

lemma run_test_stdout:
  assumes "run_test s_in c = (c', r)"
  shows "\<exists>ms. stdout c' = stdout c @ ms
    \<and> (\<forall>res. BestParameters res \<in> set ms \<longrightarrow> process_list test s_in = (res, Inr res))"
proof (cases r)
  case (Inl e)
  with assms show ?thesis by (simp add: run_test_Inl)
next
  case (Inr result)
  with assms show ?thesis by (cases result) (auto simp: run_test_Some run_test_None)
qed

lemma script_tail_stdout:
  assumes "script_tail fl s_in c = (c', r)"
  shows "\<exists>ms. stdout c' = stdout c @ NumberOfModes (length s_in) # ms
    \<and> (\<forall>res. BestParameters res \<in> set ms \<longrightarrow> process_list test s_in = (res, Inr res))"
proof -
  let ?c1 = "c\<lparr>stdout := stdout c @ [NumberOfModes (length s_in)]\<rparr>"
  obtain c2 r2 where run: "run_test s_in ?c1 = (c2, r2)" by (cases "run_test s_in ?c1")
  from run_test_stdout [OF run] obtain ms1 where ms1: "stdout c2 = stdout ?c1 @ ms1"
    and best: "\<forall>res. BestParameters res \<in> set ms1 \<longrightarrow> process_list test s_in = (res, Inr res)"
    by blast
  show ?thesis
  proof (cases r2)
    case (Inl e)
    with run assms have "c' = c2" by (simp add: script_tail_def sbind_def print_def)
    with ms1 best show ?thesis by simp
  next
    case (Inr result)
    obtain c3 r3 where a: "ask (params_body fl result) c2 = (c3, r3)"
      by (cases "ask (params_body fl result) c2")
    from ask_messages [OF a] obtain ms2 where ms2: "stdout c3 = stdout c2 @ ms2"
      and nb2: "\<forall>res. BestParameters res \<notin> set ms2"
      using body_answers(2) [of fl result] by blast
    from assms run Inr a obtain ms3 where ms3: "stdout c' = stdout c3 @ ms3"
      and nb3: "\<forall>res. BestParameters res \<notin> set ms3"
      by (cases r3) (auto simp: script_tail_def sbind_def print_def verdict_def)
    from ms1 ms2 ms3 have "stdout c' = stdout c @ NumberOfModes (length s_in) # (ms1 @ ms2 @ ms3)"
      by simp
    moreover from best nb2 nb3
    have "\<forall>res. BestParameters res \<in> set (ms1 @ ms2 @ ms3) \<longrightarrow> process_list test s_in = (res, Inr res)"
      by simp
    ultimately show ?thesis by blast
  qed
qed

section \<open>Properties\<close>

text \<open>
  \<^bold>\<open>C22\<close> (functional). What the script's run of its hard-wired circuit does to every
  vector: gate 0 squeezes entry 3, gate 2 is the cubic gate on entry 4, gate 3 the loss
  gate with parameter 3 on entry 1, gate 4 the beam splitter on entries 2 and 5.
  A vector with fewer than six entries never yields a result.
\<close>

theorem test_run:
  "process_list test s_in =
    (if length s_in < 4 then (s_in, Inl IndexError)
     else let s1 = s_in[3 := s_squeezing (s_in ! 3) (12/10)] in
       if \<not> in_range (s1 ! 3) then (s1, Inl (OutOfRange KS 3 0 s1))
       else if length s_in < 5 then (s1, Inl IndexError)
       else if s1 ! 4 \<noteq> 1 then (s1[4 := - 100], Inl (OutOfRange KC 4 2 (s1[4 := - 100])))
       else let s3 = s1[4 := - 1, 1 := s_losses (s1 ! 1) 3] in
         if \<not> in_range (s3 ! 1) then (s3, Inl (OutOfRange KL 1 3 s3))
         else if length s_in < 6 then (s3, Inl IndexError)
         else let mn = min (s3 ! 2) (s3 ! 5); s4 = s3[2 := mn, 5 := mn] in
           if \<not> in_range mn then (s4, Inl (OutOfRange KB 2 4 s4)) else (s4, Inr s4))"
  unfolding process_list_parsed [OF parse_input_test]
  by (simp add: gate_eval s_cubic_def in_range_numerals)

text \<open>
  \<^bold>\<open>C12\<close> (functional). Every run of the script that reaches its last line, read
  back from the console. The input it has consumed is some refused lines, a line that
  converts to a vector of at least six numbers, all in \<open>[-1, 1]\<close>, further refused
  lines, and a line that converts to as many values as the result has entries; the
  result is what \<open>process_list\<close> returned for that vector on the script's circuit.
  The output is the answers to the refused lines, the number of modes and the result in
  their places, and last the verdict, which is \<open>Possible\<close> exactly if no value of the
  second line is greater than or equal to the corresponding entry of the result.
\<close>

theorem script_verdict:
  assumes "script fl c = (c', Inr u)"
  shows "\<exists>pre1 l1 pre2 l2 s_in res user_params.
      stdin c = pre1 @ l1 # pre2 @ l2 # stdin c'
    \<and> (\<forall>p \<in> set pre1. is_Retry (s_in_body fl p))
    \<and> floats fl l1 = Some (map Finite s_in) \<and> all_in_range s_in \<and> 6 \<le> length s_in
    \<and> process_list test s_in = (res, Inr res)
    \<and> (\<forall>p \<in> set pre2. is_Retry (params_body fl (Some res) p))
    \<and> floats fl l2 = Some user_params \<and> length user_params = length res
    \<and> stdout c' = stdout c @ map (\<lambda>p. answer (s_in_body fl p)) pre1
        @ [NumberOfModes (length s_in), BestParameters res]
        @ map (\<lambda>p. answer (params_body fl (Some res) p)) pre2
        @ [if \<forall>i < length res. \<not> float_le (Finite (res ! i)) (user_params ! i)
           then Possible else NotPossible]"
proof -
  from assms obtain c1 s_in c2 c3 result c4 up r
    where a1: "ask (s_in_body fl) c = (c1, Inr s_in)"
      and p1: "print (NumberOfModes (length s_in)) c1 = (c2, Inr ())"
      and run: "run_test s_in c2 = (c3, Inr result)"
      and a2: "ask (params_body fl result) c3 = (c4, Inr (up, r))"
      and out: "print (verdict up r) c4 = (c', Inr u)"
    by (auto simp: script_def script_tail_def sbind_eq_Inr_iff)
  from ask_Break [OF a1] obtain pre1 l1 where in1: "stdin c = pre1 @ l1 # stdin c1"
    and re1: "\<forall>p \<in> set pre1. is_Retry (s_in_body fl p)" and l1: "s_in_body fl l1 = Break s_in"
    and out1: "stdout c1 = stdout c @ map (\<lambda>p. answer (s_in_body fl p)) pre1"
    by blast
  from ask_Break [OF a2] obtain pre2 l2 where in2: "stdin c3 = pre2 @ l2 # stdin c4"
    and re2: "\<forall>p \<in> set pre2. is_Retry (params_body fl result p)"
    and l2: "params_body fl result l2 = Break (up, r)"
    and out2: "stdout c4 = stdout c3 @ map (\<lambda>p. answer (params_body fl result p)) pre2"
    by blast
  from params_body_Break [OF l2] have res: "result = Some r" and len: "length up = length r"
    and up: "floats fl l2 = Some up"
    by simp_all
  from run res have pl: "process_list test s_in = (r, Inr r)"
    and c3: "c3 = c2\<lparr>stdout := stdout c2 @ [BestParameters r]\<rparr>"
    by (simp_all add: run_test_Some)
  from p1 have c2: "c2 = c1\<lparr>stdout := stdout c1 @ [NumberOfModes (length s_in)]\<rparr>"
    by (auto simp: print_def)
  from out have c': "c' = c4\<lparr>stdout := stdout c4 @ [verdict up r]\<rparr>" by (auto simp: print_def)
  have v: "verdict up r =
      (if \<forall>i < length r. \<not> float_le (Finite (r ! i)) (up ! i) then Possible else NotPossible)"
    using len by (simp add: verdict_def all_less_iff)
  have "stdin c = pre1 @ l1 # pre2 @ l2 # stdin c'" using in1 in2 c2 c3 c' by simp
  moreover have "stdout c' = stdout c @ map (\<lambda>p. answer (s_in_body fl p)) pre1
      @ [NumberOfModes (length s_in), BestParameters r]
      @ map (\<lambda>p. answer (params_body fl (Some r) p)) pre2
      @ [if \<forall>i < length r. \<not> float_le (Finite (r ! i)) (up ! i) then Possible else NotPossible]"
    using out1 out2 c2 c3 c' res v by simp
  moreover from l1 have "floats fl l1 = Some (map Finite s_in)" "all_in_range s_in"
    by (simp_all add: s_in_body_Break)
  ultimately show ?thesis using re1 re2 res pl test_success(1) [OF pl] up len
    by (intro exI [of _ pre1] exI [of _ l1] exI [of _ pre2] exI [of _ l2] exI [of _ s_in]
        exI [of _ r] exI [of _ up]) simp
qed

lemmas script_eval = script_def script_tail_def ask.simps s_in_body_def params_body_def
  floats_def run_test_def print_def verdict_def invalid_values_def sbind_def sraise_def
  in_range_def float_in_range_def float_eval

theorem script_verdict_witness:
  "script float \<lparr>stdin = [''0,0.5,0,0,1,0'', ''-1,-1,-1,-1,-2,-1''], stdout = []\<rparr>
     = (\<lparr>stdin = [], stdout = [NumberOfModes 6, BestParameters [0, - 1/2, 0, 0, - 1, 0], Possible]\<rparr>,
        Inr ())"
proof -
  have pl: "process_list test [0, 1/2, 0, 0, 1, 0] = ([0, - 1/2, 0, 0, - 1, 0], Inr [0, - 1/2, 0, 0, - 1, 0])"
    unfolding process_list_parsed [OF parse_input_test]
    by (simp add: gate_eval gate_defs in_range_def)
  have run: "script float \<lparr>stdin = [''0,0.5,0,0,1,0'', ''-1,-1,-1,-1,-2,-1''], stdout = []\<rparr>
     = (\<lparr>stdin = [], stdout = [NumberOfModes 6, BestParameters [0, - 1/2, 0, 0, - 1, 0], Possible]\<rparr>,
        Inr ())"
    by (simp add: script_eval pl)
  from script_verdict [OF run] run show ?thesis by simp
qed

text \<open>
  \<^bold>\<open>C23\<close> (error). When the circuit raises \<open>ValueError\<close> the script prints the
  message and carries on, but \<open>result\<close> was never bound: whatever the user types next,
  the script cannot reach a verdict. It ends with \<open>NameError\<close> at \<open>len(result)\<close> as
  soon as a line converts to numbers, or with \<open>EOFError\<close> when the input ends first.
\<close>

theorem script_name_error:
  assumes "process_list test s_in = (s', Inl e)" and "is_ValueError e"
  shows "\<exists>c'. (script_tail fl s_in c = (c', Inl NameError) \<or> script_tail fl s_in c = (c', Inl EOFError))
    \<and> Failure e \<in> set (stdout c')"
proof -
  let ?c1 = "c\<lparr>stdout := stdout c @ [NumberOfModes (length s_in)]\<rparr>"
  let ?c2 = "?c1\<lparr>stdout := stdout ?c1 @ [Failure e]\<rparr>"
  have run: "run_test s_in ?c1 = (?c2, Inr None)"
    using assms by (simp add: run_test_None)
  obtain c' r where a: "ask (params_body fl None) ?c2 = (c', r)"
    by (cases "ask (params_body fl None) ?c2")
  from ask_outcome [OF a] have out: "Failure e \<in> set (stdout c')" by auto
  have "r = Inl NameError \<or> r = Inl EOFError"
  proof (cases r)
    case (Inl e')
    with ask_Inl [of "params_body fl None" ?c2 c' e'] a params_body_Raise [of fl None]
    show ?thesis by auto
  next
    case (Inr v)
    with ask_Inr [of "params_body fl None" ?c2 c' v] a params_body_None [of fl]
    show ?thesis by auto
  qed
  moreover have "script_tail fl s_in c = (c', Inl e')" if "r = Inl e'" for e'
    using run a that by (simp add: script_tail_def sbind_def print_def)
  ultimately show ?thesis using out by blast
qed

theorem script_name_error_witness:
  "process_list test [0, 0, 0, 0, 0, 0]
     = ([0, 0, 0, 0, - 100, 0], Inl (OutOfRange KC 4 2 [0, 0, 0, 0, - 100, 0])) \<and>
   (\<exists>c'. (script_tail float [0, 0, 0, 0, 0, 0] \<lparr>stdin = [''1,2,3,4,5,6''], stdout = []\<rparr> = (c', Inl NameError)
      \<or> script_tail float [0, 0, 0, 0, 0, 0] \<lparr>stdin = [''1,2,3,4,5,6''], stdout = []\<rparr> = (c', Inl EOFError))
     \<and> Failure (OutOfRange KC 4 2 [0, 0, 0, 0, - 100, 0]) \<in> set (stdout c'))"
proof -
  have pl: "process_list test [0, 0, 0, 0, 0, 0]
     = ([0, 0, 0, 0, - 100, 0], Inl (OutOfRange KC 4 2 [0, 0, 0, 0, - 100, 0]))"
    unfolding process_list_parsed [OF parse_input_test]
    by (simp add: gate_eval gate_defs in_range_def)
  from script_name_error [OF pl, of float "\<lparr>stdin = [''1,2,3,4,5,6''], stdout = []\<rparr>"] pl
  show ?thesis by simp
qed

text \<open>
  \<^bold>\<open>C25\<close> (error). The script catches \<open>ValueError\<close> only. On a vector of fewer than
  four entries the first gate of the circuit raises \<open>IndexError\<close>, which leaves the
  script right after the number of modes has been printed.
\<close>

theorem script_index_error:
  assumes "length s_in < 4"
  shows "script_tail fl s_in c
    = (c\<lparr>stdout := stdout c @ [NumberOfModes (length s_in)]\<rparr>, Inl IndexError)"
  using test_short [OF assms]
  by (simp add: script_tail_def run_test_def sbind_def print_def sraise_def)

theorem script_index_error_witness:
  "script float \<lparr>stdin = [''0,1,-1''], stdout = []\<rparr>
     = (\<lparr>stdin = [], stdout = [NumberOfModes 3]\<rparr>, Inl IndexError)"
proof -
  have "ask (s_in_body float) \<lparr>stdin = [''0,1,-1''], stdout = []\<rparr>
      = (\<lparr>stdin = [], stdout = []\<rparr>, Inr [0, 1, - 1])"
    by (simp add: ask.simps s_in_body_def floats_def invalid_values_def float_in_range_def
        float_eval)
  with script_index_error [of "[0, 1, - 1]" float "\<lparr>stdin = [], stdout = []\<rparr>"]
  show ?thesis by (simp add: script_def sbind_def)
qed

text \<open>
  \<^bold>\<open>C13\<close> (liveness). The first loop accepts the first acceptable answer. If some
  line of the input is not empty and converts to values that all lie in \<open>[-1, 1]\<close>,
  the loop ends at the first such line with its numbers as the vector, and does not run
  out of input. Every line before it was empty, or did not convert, or held a value
  outside \<open>[-1, 1]\<close> (an infinity or NaN among them), and has been answered with the
  message for that defect, the out-of-range message listing the offending values; the
  lines after it are still to be read.
\<close>

theorem first_loop_liveness:
  assumes "\<exists>l \<in> set (stdin c). l \<noteq> [] \<and> (\<exists>xs. floats fl l = Some xs \<and> list_all float_in_range xs)"
  shows "\<exists>pre l rest xs. stdin c = pre @ l # rest
    \<and> l \<noteq> [] \<and> floats fl l = Some xs \<and> list_all float_in_range xs
    \<and> (\<forall>p \<in> set pre. p = [] \<or> floats fl p = None
          \<or> (\<exists>ys. floats fl p = Some ys \<and> \<not> list_all float_in_range ys))
    \<and> ask (s_in_body fl) c =
        (c\<lparr>stdin := rest,
            stdout := stdout c @ map (\<lambda>p. if p = [] then AtLeastOneValue
              else case floats fl p of None \<Rightarrow> ValidNumbers
                | Some ys \<Rightarrow> MustBeInRange (filter (\<lambda>x. \<not> float_in_range x) ys)) pre\<rparr>,
         Inr (map finite_value xs))"
proof -
  let ?ok = "\<lambda>l. l \<noteq> [] \<and> (\<exists>xs. floats fl l = Some xs \<and> list_all float_in_range xs)"
  from split_list_first_prop [OF assms] obtain pre l rest where s: "stdin c = pre @ l # rest"
    and l: "?ok l" and pre: "\<forall>p \<in> set pre. \<not> ?ok p"
    by blast
  from l obtain xs where xs: "l \<noteq> []" "floats fl l = Some xs" "list_all float_in_range xs"
    by blast
  from pre have re: "\<forall>p \<in> set pre. is_Retry (s_in_body fl p)"
    by (auto simp: s_in_body_Retry)
  from xs have br: "s_in_body fl l = Break (map finite_value xs)"
    by (simp add: s_in_body_def invalid_values_Nil_iff)
  have "map (\<lambda>p. answer (s_in_body fl p)) pre
      = map (\<lambda>p. if p = [] then AtLeastOneValue
          else case floats fl p of None \<Rightarrow> ValidNumbers
            | Some ys \<Rightarrow> MustBeInRange (filter (\<lambda>x. \<not> float_in_range x) ys)) pre"
    using re by (intro map_cong refl s_in_body_answer) simp
  with ask_leaves [OF s re] br
  have "ask (s_in_body fl) c =
        (c\<lparr>stdin := rest,
            stdout := stdout c @ map (\<lambda>p. if p = [] then AtLeastOneValue
              else case floats fl p of None \<Rightarrow> ValidNumbers
                | Some ys \<Rightarrow> MustBeInRange (filter (\<lambda>x. \<not> float_in_range x) ys)) pre\<rparr>,
         Inr (map finite_value xs))"
    by simp
  moreover from re have "\<forall>p \<in> set pre. p = [] \<or> floats fl p = None
      \<or> (\<exists>ys. floats fl p = Some ys \<and> \<not> list_all float_in_range ys)"
    by (simp add: s_in_body_Retry)
  ultimately show ?thesis using s xs by blast
qed

theorem first_loop_liveness_witness:
  "ask (s_in_body float) \<lparr>stdin = [[], ''x'', ''2,nan,0'', ''0,1'', ''2''], stdout = []\<rparr>
     = (\<lparr>stdin = [''2''],
         stdout = [AtLeastOneValue, ValidNumbers, MustBeInRange [Finite 2, NaN]]\<rparr>, Inr [0, 1])"
proof -
  have ok: "floats float ''0,1'' = Some [Finite 0, Finite 1]" by (simp add: script_eval)
  then have "\<exists>l \<in> set (stdin \<lparr>stdin = [[], ''x'', ''2,nan,0'', ''0,1'', ''2''], stdout = []\<rparr>).
      l \<noteq> [] \<and> (\<exists>xs. floats float l = Some xs \<and> list_all float_in_range xs)"
    by (simp add: float_in_range_def)
  from first_loop_liveness [OF this] show ?thesis
    by (simp add: script_eval)
qed

text \<open>
  \<^bold>\<open>C24\<close> (liveness). The script reaches its verdict whenever the user cooperates: if,
  after any number of refused lines, a line gives a vector on which the circuit runs
  without an exception, and, after any number of further refused lines, a line gives as
  many numbers as the result has entries, then the script ends normally. It has printed
  the message of each refused line, the number of modes, the result and the verdict, in
  this order, and has read nothing beyond the second accepted line.
\<close>

theorem script_liveness:
  assumes "stdin c = pre1 @ l1 # pre2 @ l2 # rest"
    and "\<forall>p \<in> set pre1. is_Retry (s_in_body fl p)" and "s_in_body fl l1 = Break s_in"
    and "process_list test s_in = (res, Inr res)"
    and "\<forall>p \<in> set pre2. is_Retry (params_body fl (Some res) p)"
    and "params_body fl (Some res) l2 = Break (up, res)"
  shows "script fl c =
    (c\<lparr>stdin := rest,
        stdout := stdout c @ map (\<lambda>p. answer (s_in_body fl p)) pre1
          @ [NumberOfModes (length s_in), BestParameters res]
          @ map (\<lambda>p. answer (params_body fl (Some res) p)) pre2 @ [verdict up res]\<rparr>, Inr ())"
proof -
  let ?m1 = "map (\<lambda>p. answer (s_in_body fl p)) pre1"
  let ?m2 = "map (\<lambda>p. answer (params_body fl (Some res) p)) pre2"
  let ?c1 = "c\<lparr>stdin := pre2 @ l2 # rest, stdout := stdout c @ ?m1\<rparr>"
  let ?c2 = "c\<lparr>stdin := pre2 @ l2 # rest, stdout := stdout c @ ?m1 @ [NumberOfModes (length s_in)]\<rparr>"
  let ?c3 = "?c2\<lparr>stdout := stdout ?c2 @ [BestParameters res]\<rparr>"
  let ?c4 = "?c3\<lparr>stdin := rest, stdout := stdout ?c3 @ ?m2\<rparr>"
  have a1: "ask (s_in_body fl) c = (?c1, Inr s_in)"
    using ask_leaves [OF assms(1,2)] assms(3) by simp
  have p1: "print (NumberOfModes (length s_in)) ?c1 = (?c2, Inr ())" by (simp add: print_def)
  have run: "run_test s_in ?c2 = (?c3, Inr (Some res))"
    using assms(4) by (simp add: run_test_Some)
  have "stdin ?c3 = pre2 @ l2 # rest" by simp
  from ask_leaves [OF this assms(5)] assms(6)
  have a2: "ask (params_body fl (Some res)) ?c3 = (?c4, Inr (up, res))" by simp
  have "script_tail fl s_in ?c1 = (?c4\<lparr>stdout := stdout ?c4 @ [verdict up res]\<rparr>, Inr ())"
    unfolding script_tail_def sbind_def p1 by (simp only: run a2 prod.case sum.case print_def)
  with a1 show ?thesis by (simp add: script_def sbind_def)
qed

theorem script_liveness_witness:
  "script float \<lparr>stdin = [''3'', ''0,0.5,0,0,1,0'', ''1,2'', ''-1,-1,-1,-1,-2,-1'', ''later''], stdout = []\<rparr>
     = (\<lparr>stdin = [''later''],
         stdout = [MustBeInRange [Finite 3], NumberOfModes 6, BestParameters [0, - 1/2, 0, 0, - 1, 0],
                   WrongLength 6, Possible]\<rparr>, Inr ())"
proof -
  have pl: "process_list test [0, 1/2, 0, 0, 1, 0] = ([0, - 1/2, 0, 0, - 1, 0], Inr [0, - 1/2, 0, 0, - 1, 0])"
    unfolding process_list_parsed [OF parse_input_test]
    by (simp add: gate_eval gate_defs in_range_def)
  have b: "\<forall>p \<in> set [''3'']. is_Retry (s_in_body float p)"
    "s_in_body float ''0,0.5,0,0,1,0'' = Break [0, 1/2, 0, 0, 1, 0]"
    "\<forall>p \<in> set [''1,2'']. is_Retry (params_body float (Some [0, - 1/2, 0, 0, - 1, 0]) p)"
    "params_body float (Some [0, - 1/2, 0, 0, - 1, 0]) ''-1,-1,-1,-1,-2,-1''
       = Break ([Finite (- 1), Finite (- 1), Finite (- 1), Finite (- 1), Finite (- 2), Finite (- 1)],
                [0, - 1/2, 0, 0, - 1, 0])"
    by (simp_all add: script_eval)
  have "stdin \<lparr>stdin = [''3'', ''0,0.5,0,0,1,0'', ''1,2'', ''-1,-1,-1,-1,-2,-1'', ''later''], stdout = []\<rparr>
      = [''3''] @ ''0,0.5,0,0,1,0'' # [''1,2''] @ ''-1,-1,-1,-1,-2,-1'' # [''later'']"
    by simp
  from script_liveness [OF this b(1,2) pl b(3,4)] show ?thesis
    by (simp add: script_eval)
qed

text \<open>
  \<^bold>\<open>C11\<close> (functional). What the comparison loop decides. The verdict is
  \<open>Possible\<close> exactly if, of the pairs that \<open>zip\<close> forms, every second-vector entry
  is a number below the result's entry, or minus infinity, or NaN: the test
  \<open>user_param >= result_param\<close> is false on NaN, so a line of \<open>nan\<close>s is judged
  simulable.
\<close>

theorem verdict_nan:
  "verdict user_params result = Possible \<longleftrightarrow>
     (\<forall>i < min (length user_params) (length result).
        user_params ! i = NaN \<or> user_params ! i = NegInf
        \<or> (\<exists>u. user_params ! i = Finite u \<and> u < result ! i))"
  by (simp add: verdict_def all_less_iff not_float_ge_iff)

theorem verdict_nan_witness:
  "verdict [NaN, NaN, NaN, NaN, NaN, NaN] [0, - 1/2, 0, 0, - 1, 0] = Possible \<and>
   script float \<lparr>stdin = [''0,0.5,0,0,1,0'', ''nan,NaN, nan,-nan,+NAN,nan''], stdout = []\<rparr>
     = (\<lparr>stdin = [], stdout = [NumberOfModes 6, BestParameters [0, - 1/2, 0, 0, - 1, 0], Possible]\<rparr>,
        Inr ())"
proof -
  have pl: "process_list test [0, 1/2, 0, 0, 1, 0] = ([0, - 1/2, 0, 0, - 1, 0], Inr [0, - 1/2, 0, 0, - 1, 0])"
    unfolding process_list_parsed [OF parse_input_test]
    by (simp add: gate_eval gate_defs in_range_def)
  have v: "verdict [NaN, NaN, NaN, NaN, NaN, NaN] [0, - 1/2, 0, 0, - 1, 0] = Possible"
    using verdict_nan [of "[NaN, NaN, NaN, NaN, NaN, NaN]" "[0, - 1/2, 0, 0, - 1, 0]"]
    by (simp add: nth_Cons split: nat.splits)
  have "script float \<lparr>stdin = [''0,0.5,0,0,1,0'', ''nan,NaN, nan,-nan,+NAN,nan''], stdout = []\<rparr>
     = (\<lparr>stdin = [], stdout = [NumberOfModes 6, BestParameters [0, - 1/2, 0, 0, - 1, 0],
          verdict [NaN, NaN, NaN, NaN, NaN, NaN] [0, - 1/2, 0, 0, - 1, 0]]\<rparr>, Inr ())"
    by (simp add: script_eval pl del: all_less.simps)
  with v show ?thesis by simp
qed

text \<open>
  \<^bold>\<open>C10\<close> (safety). Whatever the user types and however the script ends, a result it
  has printed is the list that \<open>process_list\<close> returned for a vector the first loop
  accepted: it has at least six entries, all of them numbers in \<open>[-1, 1]\<close>. No
  infinity and no NaN gets past the first loop.
\<close>

theorem script_result_in_range:
  assumes "script fl c = (c', r)" and "BestParameters res \<in> set (stdout c')"
    and "BestParameters res \<notin> set (stdout c)"
  shows "all_in_range res \<and> 6 \<le> length res"
proof -
  obtain c1 r1 where a1: "ask (s_in_body fl) c = (c1, r1)" by (cases "ask (s_in_body fl) c")
  from ask_messages [OF a1] body_answers(1) [of fl] assms(3)
  have nb: "BestParameters res \<notin> set (stdout c1)" by fastforce
  show ?thesis
  proof (cases r1)
    case (Inl e)
    with a1 assms(1) have "c' = c1" by (simp add: script_def sbind_def)
    with nb assms(2) show ?thesis by simp
  next
    case (Inr s_in)
    with a1 assms(1) have "script_tail fl s_in c1 = (c', r)" by (simp add: script_def sbind_def)
    from script_tail_stdout [OF this] nb assms(2)
    have pl: "process_list test s_in = (res, Inr res)" by auto
    from ask_Inr [OF a1 [unfolded Inr]] have "all_in_range s_in" by (auto simp: s_in_body_Break)
    from process_list_success [OF this pl] test_success(1) [OF pl] show ?thesis by simp
  qed
qed

theorem script_result_in_range_witness:
  "script float \<lparr>stdin = [''inf,nan'', ''0,0.5,0,0,1,0''], stdout = []\<rparr>
     = (\<lparr>stdin = [], stdout = [MustBeInRange [PosInf, NaN], NumberOfModes 6,
          BestParameters [0, - 1/2, 0, 0, - 1, 0]]\<rparr>, Inl EOFError)
   \<and> all_in_range [0, - 1/2, 0, 0, - 1, 0] \<and> 6 \<le> length [0, - 1/2, 0, 0, - 1, 0 :: real]"
proof -
  have pl: "process_list test [0, 1/2, 0, 0, 1, 0] = ([0, - 1/2, 0, 0, - 1, 0], Inr [0, - 1/2, 0, 0, - 1, 0])"
    unfolding process_list_parsed [OF parse_input_test]
    by (simp add: gate_eval gate_defs in_range_def)
  have run: "script float \<lparr>stdin = [''inf,nan'', ''0,0.5,0,0,1,0''], stdout = []\<rparr>
     = (\<lparr>stdin = [], stdout = [MustBeInRange [PosInf, NaN], NumberOfModes 6,
          BestParameters [0, - 1/2, 0, 0, - 1, 0]]\<rparr>, Inl EOFError)"
    by (simp add: script_eval pl)
  from script_result_in_range [OF run, of "[0, - 1/2, 0, 0, - 1, 0]"] run show ?thesis by simp
qed

end
