(* ===== verification/Spec2Isabelle.thy ===== *)
theory Spec2Isabelle
  imports QPD_Prelude QPD_Gates QPD_Circuit QPD_Engine QPD_Machine QPD_Refinement QPD_Regex
    QPD_Lang QPD_Patterns QPD_Numerals QPD_Lexical QPD_Parser QPD_Grammar QPD_Conversions QPD_Process
    QPD_Script
begin

text \<open>
  \<^bold>\<open>Ordering-parameter propagation for bosonic circuits: a verification development
  for \<^verbatim>\<open>src/s-QPDs.py\<close>.\<close>

  \<^bold>\<open>The program.\<close> The source is one Python file. It reads a circuit written as a
  compact gate string (\<^verbatim>\<open>S1.2,3R-0.5,2C0.0,4L3,1B-2.5,2,5\<close>) and a vector of ordering
  parameters, one real number in \<open>[-1, 1]\<close> per mode. \<open>parse_input\<close> (lines 28--72)
  strips the string, refuses inner whitespace, and scans it from left to right with five
  regular expressions (lines 5--11), converting the captured numerals with \<open>_to_real\<close>
  and \<open>_to_nat\<close> (lines 13--26) into a list \<open>x\<close> of gate tuples and a dictionary
  \<open>data\<close> of the same tuples by tag. \<open>process_list\<close> (lines 98--123) parses the
  circuit and applies the tuples of \<open>x\<close> in order to the caller's list, in place: a gate
  rewrites the entry of its mode by one of the four formulas of lines 75--95 (squeezing,
  losses, cubic phase; the beam splitter rewrites two entries; a rotation does nothing)
  and raises \<open>ValueError\<close> as soon as a rewritten entry is outside \<open>[-1, 1]\<close>. The
  script around them (lines 126--179) prompts for the vector, runs one hard-wired
  circuit, and compares the result with a second vector.

  \<^bold>\<open>The theories.\<close>
  \<^descr> \<open>QPD_Prelude\<close> holds what the parts share: the tags (\<open>kind\<close>), the exceptions as
    values (\<open>error\<close>, with \<open>'a result = error + 'a\<close>), the range test \<open>in_range\<close>,
    Python's list indexing with its negative indices and its \<open>IndexError\<close>
    (\<open>norm_index\<close>, \<open>getitem\<close>, \<open>setitem\<close>, \<open>slice\<close>), and statements that mutate
    a list and may raise, as functions from the store to the store and an outcome
    (\<open>sread\<close>, \<open>swrite\<close>, \<open>sbind\<close>, \<open>sraise\<close>).
  \<^descr> \<open>QPD_Gates\<close> models \<open>s_losses\<close>, \<open>s_squeezing\<close>, \<open>s_beamsplitter\<close> and
    \<open>s_cubic\<close> over the reals. Its lemmas give, for each gate, exactly when the result
    is in \<open>[-1, 1]\<close>, monotonicity, fixed points and the composition of a gate with
    itself.
  \<^descr> \<open>QPD_Circuit\<close> models the tuples (\<open>item\<close>), the dictionary (\<open>data\<close>,
    \<open>data_append\<close>, \<open>group_by_tag\<close>) and the shape the parser guarantees
    (\<open>wf_item\<close>).
  \<^descr> \<open>QPD_Engine\<close> models the loop of \<open>process_list\<close>: \<open>check_range\<close>,
    \<open>update_mode\<close> (the branches \<open>'S'\<close>, \<open>'L'\<close>, \<open>'C'\<close>), \<open>beamsplit\<close> (the branch
    \<open>'B'\<close>, with its two sequential assignments), \<open>apply_gate\<close> (the dispatch) and
    \<open>process_items\<close> (the loop with its gate counter). The rule \<open>apply_gate_cases\<close>
    lists the four outcomes of one gate; the lemmas on \<open>process_items\<close> follow from it
    by induction on the gate list: the range invariant, the frame property (an entry no
    mode addresses is unchanged), the first-failure decomposition of a raising run, and
    exactly when a run ends in \<open>IndexError\<close>: when a gate other than a rotation
    names a mode that is not below the length of the list.
  \<^descr> \<open>QPD_Machine\<close> presents the same loop as a machine, to state what holds
    between two iterations: a record of the gate counter, the pending tuples, the list
    and the raised exception, and an inductive step relation with one rule per way an
    iteration can end. By rule induction, every configuration a run passes through
    satisfies the loop invariant.
  \<^descr> \<open>QPD_Refinement\<close> states the engine's contract as the specification gives it
    (a partial map from modes to values, transfer rules from the values before the gate,
    the four typed outcomes) and proves that \<open>process_items\<close> implements it under
    the abstraction that reads entry \<open>m\<close> of the list as mode \<open>m\<close>; it also shows
    that the hypothesis on the rotations is needed: a run that the source completes on a
    circuit with a rotation on an absent mode is a run that the specification fails.
  \<^descr> \<open>QPD_Regex\<close> models the fragment of Python's \<open>re\<close> the patterns use, as a
    datatype \<open>rx\<close> with a backtracking matcher \<open>bt\<close> that lists all matches in the
    engine's priority order; \<open>re_match\<close> is the first. It also defines a matcher \<open>gm\<close>
    that never backtracks, and proves (\<open>bt_det\<close>) that the two agree on every
    pattern whose choices are decided by the next character (\<open>det\<close>).
  \<^descr> \<open>QPD_Patterns\<close> writes \<open>_REAL\<close>, \<open>_NAT\<close> and \<open>_RE_S\<close> ... \<open>_RE_B\<close> as
    terms of \<open>rx\<close> and shows that they are of that kind.
  \<^descr> \<open>QPD_Lang\<close> gives the patterns their usual meaning as sets of words
    (\<open>accepts\<close>, an inductive predicate with its inversion rules) and shows that
    every result of \<open>bt\<close> has consumed a word of the pattern and that a group has
    captured the word it consumed; conversely (\<open>gm_complete\<close>) the predictive
    matcher consumes every word of a deterministic pattern that is followed by a
    character of its follow set.
  \<^descr> \<open>QPD_Numerals\<close> models \<open>float\<close> and \<open>int\<close> on decimal numerals
    (\<open>py_float\<close>, \<open>py_int\<close>) and the wrappers \<open>to_real\<close>, \<open>to_nat\<close>.
  \<^descr> \<open>QPD_Lexical\<close> describes the words of \<open>_NAT\<close> and \<open>[+-]?_REAL\<close> by
    their parts (sign, digits, point, digits, exponent) and computes what \<open>int\<close> and
    \<open>float\<close> return on them: the conversions succeed on every captured group.
  \<^descr> \<open>QPD_Parser\<close> models \<open>parse_input\<close>: \<open>strip\<close>, \<open>isspace\<close>, the \<open>for\<close> loop
    over the patterns (\<open>first_match\<close>), the conversions (\<open>convert\<close>), and the
    \<open>while\<close> loop (\<open>parse_loop\<close>), a \<open>function\<close> whose termination proof is the
    progress of the position: no pattern matches the empty string. Its lemmas give the
    loop invariant (the tuples are well formed, \<open>data\<close> is the grouping of \<open>x\<close>, every
    token consumes at least four characters), the text and the groups of a matched
    token, the only two ways the loop can fail, and the facts about stripping.
  \<^descr> \<open>QPD_Grammar\<close> states the grammar of the tokens (\<open>token\<close>, \<open>token_text\<close>,
    \<open>token_ok\<close>) and proves the parser sound and complete for it: an accepted
    input is a concatenation of tokens and \<open>x\<close> holds their tuples, and every
    concatenation of tokens is accepted and parsed back into its tuples, each numeral
    in the field of its place. For a refused input, the text before the position in the
    exception is a sequence of tokens and no token starts at that position.
  \<^descr> \<open>QPD_Conversions\<close> models \<open>float\<close> and \<open>int\<close> on arbitrary strings, as
    the script applies \<open>float\<close> to what the user types: whitespace is stripped
    (\<open>strip\<close>), single underscores between digits are removed
    (\<open>del_underscores\<close>), \<open>float\<close> reads \<open>inf\<close>, \<open>infinity\<close> and \<open>nan\<close> in
    any case (\<open>lower\<close>), and \<open>int_str\<close> refuses more digits than the interpreter's
    limit, its first argument. The values of \<open>float\<close> are the datatype \<open>pyfloat\<close>
    (a real, two infinities, NaN) with the comparison \<open>float_le\<close>, false on NaN. Its
    lemmas show that the conversions agree with \<open>py_float\<close> and \<open>py_int\<close> on
    everything the patterns capture, and that the range test of the script lets finite
    values through only.
  \<^descr> \<open>QPD_Process\<close> composes parser and engine into \<open>process_list\<close>.
  \<^descr> \<open>QPD_Script\<close> models the script: the console as a record of the lines to
    read and the messages printed, the two \<open>while True\<close> loops as one recursive
    function \<open>ask\<close> over the lines (a \<open>function\<close> with the number of lines left
    as measure) with the bodies \<open>s_in_body\<close> and \<open>params_body\<close>, the run of the
    hard-wired circuit \<open>run_test\<close>, the comparison loop \<open>all_less\<close>, and their
    composition \<open>script\<close>. The conversion of the typed text is a parameter of these
    definitions; the script is \<open>script float\<close>. Its lemmas evaluate the run of the
    circuit on an arbitrary vector, describe every way the script can end and what it has
    printed by then (\<open>ask_outcome\<close>, \<open>script_tail_stdout\<close>), and show that a loop
    is left at the first line that is not answered with a new prompt (\<open>ask_leaves\<close>).
  \<^descr> This theory holds the properties that need parser and engine together: the
    outcomes of \<open>process_list\<close>, its refinement of the specification's engine from
    the circuit text on, and when it ends in \<open>IndexError\<close>.

  \<^bold>\<open>Correspondence.\<close> Every exception of the source is a constructor of \<open>error\<close>
  carrying the values its message prints; a function that may raise returns a \<open>result\<close>.
  The list \<open>s_in\<close> is mutated in place, also by a run that raises, so the engine's
  operations return the list after the statement together with the outcome. Mode numbers
  are kept as Python integers and index the list from 0, as the source does; the parser
  guarantees that they are at least 1. Loops are recursive functions: structural on the
  gate list in the engine, with a measure in the parser and in the input loops of the
  script; no fuel is used anywhere. The input of the script is the list of the lines that \<open>input\<close> will return, and
  \<open>EOFError\<close> is what \<open>input\<close> raises when the list is exhausted; a loop that is
  never given an acceptable line ends that way.

  \<^bold>\<open>Idealisations.\<close> The numbers in the vector and in the tuples are real numbers,
  not doubles: rounding and the overflow of \<open>exp\<close> or of a large numeral to an
  infinity are outside the model, and a numeral has its exact value. The infinities and
  NaN that \<open>float\<close> reads from the words \<open>inf\<close> and \<open>nan\<close> are modelled where
  they can occur, in what the user types; the first input loop refuses them, so the
  vector is finite, and the second loop passes them to the comparison. Characters are
  8-bit: \<open>\d\<close> is \<open>[0-9]\<close> and \<open>isspace\<close> is the whitespace of Latin-1, which is
  what Python does on such strings. The parser converts with \<open>py_float\<close> and
  \<open>py_int\<close>, which read signed decimal numerals only; that is every string a
  pattern captures, and on these they are Python's conversions (shown in
  \<open>QPD_Conversions\<close>), with one exception: \<open>py_int\<close> has no limit on the number of
  digits, where Python 3.11 and later refuse more than 4300 unless the limit is lifted.

  \<^bold>\<open>Not modelled.\<close> The prompts that \<open>input\<close> prints, and the text of the messages
  and exceptions beyond the values they carry.
\<close>

section \<open>Properties of parser and engine together\<close>

text \<open>
  \<^bold>\<open>C18\<close> (error). The four ways a call of \<open>process_list\<close> can end. It returns the
  list it was given, updated; or the circuit does not parse, and the list is untouched;
  or a gate names a mode beyond the list and \<open>IndexError\<close> leaves the function; or a
  gate has pushed an entry out of \<open>[-1, 1]\<close>, and the exception carries the list as the
  caller now holds it, which has an entry outside \<open>[-1, 1]\<close> if it had none before.
\<close>

theorem process_list_outcomes:
  "(\<exists>s'. process_list circuit s_in = (s', Inr s')) \<or>
   (\<exists>e. parse_input circuit = Inl e \<and> process_list circuit s_in = (s_in, Inl e)) \<or>
   (\<exists>s'. process_list circuit s_in = (s', Inl IndexError)) \<or>
   (\<exists>s' k m i. process_list circuit s_in = (s', Inl (OutOfRange k m i s'))
       \<and> (all_in_range s_in \<longrightarrow> \<not> all_in_range s'))"
proof (cases "parse_input circuit")
  case (Inl e)
  then show ?thesis by (simp add: process_list_parse_error)
next
  case (Inr dx)
  obtain data x where dx: "dx = (data, x)" by (cases dx)
  obtain s1 r1 where run: "process_items 0 x s_in = (s1, r1)" by (cases "process_items 0 x s_in")
  note pl = process_list_parsed [OF Inr [unfolded dx], of s_in, unfolded run]
  show ?thesis
  proof (cases r1)
    case (Inr u)
    with pl show ?thesis by simp
  next
    case (Inl e)
    from process_items_failure_kind [OF run [unfolded Inl]] pl Inl show ?thesis by auto
  qed
qed

theorem process_list_outcomes_witness:
  "process_list ''L3,1'' [0, 0] = ([0, - 2], Inl (OutOfRange KL 1 0 [0, - 2])) \<and>
   all_in_range [0, 0] \<and> \<not> all_in_range [0, - 2 :: real]"
proof -
  have run: "process_list ''L3,1'' [0, 0] = ([0, - 2], Inl (OutOfRange KL 1 0 [0, - 2]))"
    by (simp add: process_list_def parser_eval gate_eval gate_defs in_range_def)
  from process_list_outcomes [of "''L3,1''" "[0, 0]"] run show ?thesis by simp
qed

text \<open>
  \<^bold>\<open>C26\<close> (safety). No circuit string makes \<open>process_list\<close> change entry 0 of the
  vector: the mode numbers of the grammar start at 1 and are used as list indices
  unchanged. The first mode of the circuit text is the second entry of the vector.
\<close>

theorem process_list_entry_0:
  "fst (process_list circuit s_in) ! 0 = s_in ! 0"
proof (cases "parse_input circuit")
  case (Inl e)
  then show ?thesis by (simp add: process_list_parse_error)
next
  case (Inr dx)
  obtain data x where dx: "dx = (data, x)" by (cases dx)
  have "fst (process_list circuit s_in) = fst (process_items 0 x s_in)"
    using Inr dx by (auto simp: process_list_parsed split: prod.splits sum.splits)
  with process_items_entry_0 [OF parse_input_wf [OF Inr [unfolded dx]]] show ?thesis by simp
qed

text \<open>
  \<^bold>\<open>C9\<close> (refinement). Parser and loop together implement the engine of the
  specification. For every circuit text that \<open>parse_input\<close> accepts, run on a vector
  within \<open>[-1, 1]\<close> that has the modes its rotations name: when \<open>process_list\<close>
  returns a list, the specification's run over the parsed tuples succeeds with that list
  as its vector; when it raises, the specification's run fails with the failure that the
  exception stands for. Nothing is assumed of the tuples: that their mode numbers are at
  least 1 is what the patterns guarantee.
\<close>

theorem process_list_refines_spec:
  assumes "parse_input circuit = Inr (data, x)" and "all_in_range s_in"
    and "\<forall>item \<in> set x. tag item = KR \<longrightarrow> modes_within (length s_in) item"
  shows "(\<forall>s' r. process_list circuit s_in = (s', Inr r) \<longrightarrow>
            spec_run 0 x (abs_vec s_in) = Inr (abs_vec r))
    \<and> (\<forall>s' e. process_list circuit s_in = (s', Inl e) \<longrightarrow>
            spec_run 0 x (abs_vec s_in) = Inl (abs_error (x ! failing_gate 0 e) e))"
proof -
  obtain s1 r1 where run: "process_items 0 x s_in = (s1, r1)" by (cases "process_items 0 x s_in")
  from process_items_refines [OF parse_input_wf [OF assms(1)] assms(2,3), of 0] run
  have "spec_run 0 x (abs_vec s_in) = abs_run 0 x (s1, r1)" by simp
  with process_list_parsed [OF assms(1), of s_in] run show ?thesis
    by (cases r1) (simp_all add: abs_run_def)
qed

theorem process_list_refines_spec_witness:
  "process_list ''R1,2C0.0,1B7,1,2'' [0, 1, 0] = ([0, - 1, - 1], Inr [0, - 1, - 1]) \<and>
   spec_run 0 [Item1 KR 1 2, Item1 KC 0 1, ItemB 7 1 2] (abs_vec [0, 1, 0]) = Inr (abs_vec [0, - 1, - 1])"
proof -
  have p: "parse_input ''R1,2C0.0,1B7,1,2''
      = Inr (group_by_tag [Item1 KR 1 2, Item1 KC 0 1, ItemB 7 1 2], [Item1 KR 1 2, Item1 KC 0 1, ItemB 7 1 2])"
    by (simp add: parser_eval data_eval)
  have run: "process_list ''R1,2C0.0,1B7,1,2'' [0, 1, 0] = ([0, - 1, - 1], Inr [0, - 1, - 1])"
    unfolding process_list_parsed [OF p] by (simp add: engine_eval)
  have "all_in_range [0, 1, 0]"
    "\<forall>item \<in> set [Item1 KR 1 2, Item1 KC 0 1, ItemB 7 1 2].
       tag item = KR \<longrightarrow> modes_within (length [0, 1, 0 :: real]) item"
    by simp_all
  from process_list_refines_spec [OF p this] run show ?thesis by simp
qed

text \<open>
  \<^bold>\<open>C19\<close> (error). When \<open>process_list\<close> ends in \<open>IndexError\<close>. For a circuit
  text that \<open>parse_input\<close> accepts, this happens exactly if some gate other than a
  rotation names a mode that is not below the length of the vector and the gates before
  it ran without an exception. Modes are list indices counted from 0, so the last mode
  of a vector of \<open>n\<close> entries is \<open>n - 1\<close>: a gate on mode \<open>n\<close> fails, as the
  beam splitter on modes 2 and 5 does on every vector of five entries.
\<close>

theorem process_list_index_error:
  assumes "parse_input circuit = Inr (data, x)"
  shows "(\<exists>s'. process_list circuit s_in = (s', Inl IndexError))
    \<longleftrightarrow> (\<exists>n < length x. tag (x ! n) \<noteq> KR \<and> \<not> modes_within (length s_in) (x ! n)
           \<and> (\<exists>s0. process_items 0 (take n x) s_in = (s0, Inr ())))"
proof -
  have "(\<exists>s'. process_list circuit s_in = (s', Inl IndexError))
      \<longleftrightarrow> (\<exists>s'. process_items 0 x s_in = (s', Inl IndexError))"
    unfolding process_list_parsed [OF assms] by (auto split: prod.splits sum.splits)
  with process_items_index_error_iff [OF parse_input_wf [OF assms], of 0 s_in]
  show ?thesis by simp
qed

theorem process_list_index_error_witness:
  "process_list ''B-2.5,2,5'' [0, 1/2, 0, 0, 1] = ([0, 1/2, 0, 0, 1], Inl IndexError)
   \<and> \<not> modes_within (length [0, 1/2, 0, 0, 1 :: real]) (ItemB (- 5/2) 2 5)"
proof -
  have p: "parse_input ''B-2.5,2,5'' = Inr (group_by_tag [ItemB (- 5/2) 2 5], [ItemB (- 5/2) 2 5])"
    by (simp add: parser_eval data_eval)
  have "\<exists>n < length [ItemB (- 5/2) 2 5]. tag ([ItemB (- 5/2) 2 5] ! n) \<noteq> KR
      \<and> \<not> modes_within (length [0, 1/2, 0, 0, 1 :: real]) ([ItemB (- 5/2) 2 5] ! n)
      \<and> (\<exists>s0. process_items 0 (take n [ItemB (- 5/2) 2 5]) [0, 1/2, 0, 0, 1] = (s0, Inr ()))"
    by (intro exI [of _ 0]) (simp add: sreturn_def)
  with process_list_index_error [OF p, of "[0, 1/2, 0, 0, 1]"]
  obtain s' where "process_list ''B-2.5,2,5'' [0, 1/2, 0, 0, 1] = (s', Inl IndexError)" by blast
  moreover from this have "s' = [0, 1/2, 0, 0, 1]"
    unfolding process_list_parsed [OF p] by (simp add: gate_eval split: if_splits)
  ultimately show ?thesis by simp
qed

end
